theory Spec2Isabelle
  imports Main "HOL-Library.Word"
begin

unbundle bit_operations_syntax

section \<open>Transfer CRC\<close>

text \<open>
  \<^verbatim>\<open>typedef uint16_t TransferCRC;\<close>  The CRC is a 16-bit word, a payload byte an
  8-bit word.  \<^verbatim>\<open>size_t\<close> values (sizes, offsets, loop counters) are natural numbers:
  every size the library handles is the size of a buffer that exists in memory, so
  none of the additions on them can wrap.
\<close>

type_synonym TransferCRC = "16 word"

definition CRC_INITIAL :: TransferCRC where
  "CRC_INITIAL = 0xFFFF"

definition CRC_SIZE_BYTES :: nat where
  "CRC_SIZE_BYTES = 2"

definition BITS_PER_BYTE :: nat where
  "BITS_PER_BYTE = 8"

definition BYTE_MAX :: "16 word" where
  "BYTE_MAX = 0xFF"

definition PADDING_BYTE :: "8 word" where
  "PADDING_BYTE = 0"

text \<open>The body of the \<^verbatim>\<open>for\<close> loop of \<^verbatim>\<open>crcAddByte\<close>, with its counter \<open>i\<close>.\<close>

function crcAddByte_loop :: "nat \<Rightarrow> TransferCRC \<Rightarrow> TransferCRC" where
  "crcAddByte_loop i out =
     (if i < BITS_PER_BYTE
      then crcAddByte_loop (i + 1)
             (if out AND 0x8000 \<noteq> 0 then push_bit 1 out XOR 0x1021 else push_bit 1 out)
      else out)"
  by pat_completeness auto
termination
  by (relation "measure (\<lambda>(i, out). BITS_PER_BYTE - i)") auto

declare crcAddByte_loop.simps [simp del]

definition crcAddByte :: "TransferCRC \<Rightarrow> 8 word \<Rightarrow> TransferCRC" where
  "crcAddByte crc byte = crcAddByte_loop 0 (crc XOR push_bit BITS_PER_BYTE (ucast byte))"

text \<open>
  \<^verbatim>\<open>crcAdd(crc, size, data)\<close> (\<open>sz\<close> is \<^verbatim>\<open>size\<close>): \<open>data\<close> is the buffer the pointer refers to, \<open>p\<close> the
  rest of it from the read position on.  Reading past the end of the buffer is not
  defined in C and unspecified here (\<open>hd []\<close>).
\<close>

function crcAdd_loop :: "nat \<Rightarrow> nat \<Rightarrow> 8 word list \<Rightarrow> TransferCRC \<Rightarrow> TransferCRC" where
  "crcAdd_loop i sz p out =
     (if i < sz then crcAdd_loop (i + 1) sz (tl p) (crcAddByte out (hd p)) else out)"
  by pat_completeness auto
termination
  by (relation "measure (\<lambda>(i, sz, p, out). sz - i)") auto

declare crcAdd_loop.simps [simp del]

definition crcAdd :: "TransferCRC \<Rightarrow> nat \<Rightarrow> 8 word list \<Rightarrow> TransferCRC" where
  "crcAdd crc sz data = crcAdd_loop 0 sz data crc"


subsection \<open>The CRC as the specification words it\<close>

text \<open>
  The specification's wording of the CRC, on natural numbers with the reduction modulo
  \<open>2\<^sup>1\<^sup>6\<close> written out: one iteration shifts left by one and XORs \<open>0x1021\<close> when the
  most significant bit was set before the shift; adding a byte XORs it into the high
  byte and runs eight iterations; adding a byte sequence folds from the left.
\<close>

definition spec_crc_iteration :: "nat \<Rightarrow> nat" where
  "spec_crc_iteration c =
     (if 32768 \<le> c then (c * 2) mod 65536 XOR 4129 else (c * 2) mod 65536)"

definition spec_crc_add_byte :: "nat \<Rightarrow> nat \<Rightarrow> nat" where
  "spec_crc_add_byte crc b = (spec_crc_iteration ^^ 8) ((crc XOR b * 256) mod 65536)"

definition spec_crc_add :: "nat \<Rightarrow> nat list \<Rightarrow> nat" where
  "spec_crc_add crc bytes = foldl spec_crc_add_byte crc bytes"

text \<open>One pass through the loop body of \<^verbatim>\<open>crcAddByte\<close>, named for the proofs.\<close>

definition crc_shift :: "TransferCRC \<Rightarrow> TransferCRC" where
  "crc_shift out = (if out AND 0x8000 \<noteq> 0 then push_bit 1 out XOR 0x1021 else push_bit 1 out)"

section \<open>Constants and types of the public header\<close>

text \<open>
  Modelled from the spec: the header \<^verbatim>\<open>canard.h\<close> is not among the sources.  The
  constants below are the ranges the specification gives for node-ID (7 bits, with the
  sentinel \<open>UNSET\<close> = 128), subject-ID (13 bits), service-ID (9 bits), priority (3 bits),
  transfer-ID (5 bits) and the two MTU values.  Node-ID and transfer-ID are bytes, the
  port-ID is a 16-bit and the CAN-ID a 32-bit unsigned integer, time is a 64-bit count
  of microseconds.  The priority and the transfer kind are C enumerations: their
  values are natural numbers here, so that a value outside the enumeration can be
  passed as it can in C.  The three kinds index the per-kind subscription lists of
  the instance and are numbered from 0 in the order of the enumeration; the proofs
  use only that they are distinct and below \<open>CANARD_NUM_TRANSFER_KINDS\<close>.
\<close>

type_synonym CanardNodeID = "8 word"
type_synonym CanardPortID = "16 word"
type_synonym CanardTransferID = "8 word"
type_synonym CanardMicrosecond = "64 word"

definition CANARD_NODE_ID_MAX :: "8 word" where "CANARD_NODE_ID_MAX = 127"
definition CANARD_NODE_ID_UNSET :: "8 word" where "CANARD_NODE_ID_UNSET = 128"
definition CANARD_SUBJECT_ID_MAX :: "16 word" where "CANARD_SUBJECT_ID_MAX = 8191"
definition CANARD_SERVICE_ID_MAX :: "16 word" where "CANARD_SERVICE_ID_MAX = 511"
definition CANARD_PRIORITY_MAX :: nat where "CANARD_PRIORITY_MAX = 7"
definition CANARD_TRANSFER_ID_MAX :: "8 word" where "CANARD_TRANSFER_ID_MAX = 31"
definition CANARD_MTU_CAN_CLASSIC :: nat where "CANARD_MTU_CAN_CLASSIC = 8"
definition CANARD_MTU_CAN_FD :: nat where "CANARD_MTU_CAN_FD = 64"
definition CANARD_NUM_TRANSFER_KINDS :: nat where "CANARD_NUM_TRANSFER_KINDS = 3"

definition CanardTransferKindMessage :: nat where "CanardTransferKindMessage = 0"
definition CanardTransferKindResponse :: nat where "CanardTransferKindResponse = 1"
definition CanardTransferKindRequest :: nat where "CanardTransferKindRequest = 2"

text \<open>
  The two error kinds.  The functions of the source return them negated in a signed
  integer whose non-negative values are results; here a result is a value of a sum
  type, \<open>Inl\<close> the error.
\<close>

datatype CanardError = CANARD_ERROR_INVALID_ARGUMENT | CANARD_ERROR_OUT_OF_MEMORY

text \<open>
  A pointer to a byte buffer is the buffer it points to, or \<open>None\<close> for \<^verbatim>\<open>NULL\<close>;
  the size travels beside it, as in the source.
\<close>

record CanardTransfer =
  tr_timestamp_usec :: CanardMicrosecond
  tr_priority :: nat
  tr_transfer_kind :: nat
  tr_port_id :: CanardPortID
  tr_remote_node_id :: CanardNodeID
  tr_transfer_id :: CanardTransferID
  tr_payload_size :: nat
  tr_payload :: "8 word list option"

record CanardFrame =
  fr_timestamp_usec :: CanardMicrosecond
  fr_extended_can_id :: "32 word"
  fr_payload_size :: nat
  fr_payload :: "8 word list option"

definition bytes_at :: "8 word list option \<Rightarrow> 8 word list" where
  "bytes_at p = (case p of None \<Rightarrow> [] | Some bs \<Rightarrow> bs)"

section \<open>Common constants of the implementation\<close>

definition TAIL_START_OF_TRANSFER :: "8 word" where "TAIL_START_OF_TRANSFER = 128"
definition TAIL_END_OF_TRANSFER :: "8 word" where "TAIL_END_OF_TRANSFER = 64"
definition TAIL_TOGGLE :: "8 word" where "TAIL_TOGGLE = 32"

definition CAN_EXT_ID_MASK :: "32 word" where "CAN_EXT_ID_MASK = push_bit 29 1 - 1"

definition OFFSET_PRIORITY :: nat where "OFFSET_PRIORITY = 26"
definition OFFSET_SUBJECT_ID :: nat where "OFFSET_SUBJECT_ID = 8"
definition OFFSET_SERVICE_ID :: nat where "OFFSET_SERVICE_ID = 14"
definition OFFSET_DST_NODE_ID :: nat where "OFFSET_DST_NODE_ID = 7"

definition FLAG_SERVICE_NOT_MESSAGE :: "32 word" where "FLAG_SERVICE_NOT_MESSAGE = push_bit 25 1"
definition FLAG_ANONYMOUS_MESSAGE :: "32 word" where "FLAG_ANONYMOUS_MESSAGE = push_bit 24 1"
definition FLAG_REQUEST_NOT_RESPONSE :: "32 word" where "FLAG_REQUEST_NOT_RESPONSE = push_bit 24 1"
definition FLAG_RESERVED_23 :: "32 word" where "FLAG_RESERVED_23 = push_bit 23 1"
definition FLAG_RESERVED_07 :: "32 word" where "FLAG_RESERVED_07 = push_bit 7 1"

section \<open>Session specifier\<close>

definition makeMessageSessionSpecifier :: "CanardPortID \<Rightarrow> CanardNodeID \<Rightarrow> 32 word" where
  "makeMessageSessionSpecifier subject_id src_node_id =
     ucast src_node_id OR push_bit OFFSET_SUBJECT_ID (ucast subject_id)"

definition makeServiceSessionSpecifier ::
  "CanardPortID \<Rightarrow> bool \<Rightarrow> CanardNodeID \<Rightarrow> CanardNodeID \<Rightarrow> 32 word" where
  "makeServiceSessionSpecifier service_id request_not_response src_node_id dst_node_id =
     ucast src_node_id OR push_bit OFFSET_DST_NODE_ID (ucast dst_node_id) OR
     push_bit OFFSET_SERVICE_ID (ucast service_id) OR
     (if request_not_response then FLAG_REQUEST_NOT_RESPONSE else 0) OR FLAG_SERVICE_NOT_MESSAGE"

section \<open>Transmission\<close>

text \<open>
  An item of the transmission queue.  \<open>tqi_addr\<close> is the address of the block the
  item lives in, as the allocator returned it; it is what is handed to the free
  function.  The \<^verbatim>\<open>next\<close> pointer is the order of the list that holds the item:
  the queue of an instance is the list of the items reached from \<^verbatim>\<open>_tx_queue\<close>
  through \<^verbatim>\<open>next\<close>.  \<open>tqi_payload\<close> holds the payload bytes written so far, in
  the order of their positions.
\<close>

record CanardInternalTxQueueItem =
  tqi_addr :: nat
  tqi_deadline_usec :: CanardMicrosecond
  tqi_payload_size :: nat
  tqi_id :: "32 word"
  tqi_payload :: "8 word list"

text \<open>
  A session of the reception pipeline and a subscription.  The session slots of a
  subscription are an array of \<open>CANARD_NODE_ID_MAX + 1\<close> pointers.
\<close>

record CanardInternalRxSession =
  rxs_addr :: nat
  rxs_transfer_timestamp_usec :: CanardMicrosecond
  rxs_payload_size :: nat
  rxs_payload :: "nat option"
  rxs_calculated_crc :: TransferCRC
  rxs_toggle_and_transfer_id :: CanardTransferID
  rxs_iface_index :: "8 word"

record CanardRxSubscription =
  sub_port_id :: CanardPortID
  sub_payload_size_bytes_max :: nat
  sub_transfer_id_timeout_usec :: CanardMicrosecond
  sub_sessions :: "CanardInternalRxSession option list"

text \<open>
  The instance.  The allocator is the pair of functions the user supplies; \<open>memory\<close>
  is the state of the user's memory manager, which both functions read and change
  (in the source they reach it through the instance pointer they are given).
  \<^verbatim>\<open>memory_allocate\<close> returns the address of the new block or \<^verbatim>\<open>NULL\<close>.
  The opaque \<^verbatim>\<open>user_reference\<close> is never read by the library and is left out.
  \<open>rx_subscriptions\<close> maps a transfer kind to the list of its subscriptions.
\<close>

record 'm CanardInstance =
  mtu_bytes :: nat
  node_id :: CanardNodeID
  memory :: 'm
  memory_allocate :: "'m \<Rightarrow> nat \<Rightarrow> nat option \<times> 'm"
  memory_free :: "'m \<Rightarrow> nat option \<Rightarrow> 'm"
  rx_subscriptions :: "nat \<Rightarrow> CanardRxSubscription list"
  tx_queue :: "CanardInternalTxQueueItem list"

text \<open>
  The sizes of the two internal structures depend on the platform; the source
  documents 32 bytes as their upper bound.  Nothing below depends on the values.
\<close>

definition sizeof_CanardInternalTxQueueItem :: nat where
  "sizeof_CanardInternalTxQueueItem = 32"

definition sizeof_CanardInternalRxSession :: nat where
  "sizeof_CanardInternalRxSession = 32"

definition CanardCANDLCToLength :: "nat list" where
  "CanardCANDLCToLength = [0, 1, 2, 3, 4, 5, 6, 7, 8, 12, 16, 20, 24, 32, 48, 64]"

definition CanardCANLengthToDLC :: "nat list" where
  "CanardCANLengthToDLC =
     [0, 1, 2, 3, 4, 5, 6, 7, 8,
      9, 9, 9, 9,
      10, 10, 10, 10,
      11, 11, 11, 11,
      12, 12, 12, 12,
      13, 13, 13, 13, 13, 13, 13, 13,
      14, 14, 14, 14, 14, 14, 14, 14, 14, 14, 14, 14, 14, 14, 14, 14,
      15, 15, 15, 15, 15, 15, 15, 15, 15, 15, 15, 15, 15, 15, 15, 15]"

definition getPresentationLayerMTU :: "'m CanardInstance \<Rightarrow> nat" where
  "getPresentationLayerMTU ins =
     (let max_index = length CanardCANLengthToDLC - 1;
          mtu = (if mtu_bytes ins < CANARD_MTU_CAN_CLASSIC then CANARD_MTU_CAN_CLASSIC
                 else if mtu_bytes ins \<le> max_index
                 then CanardCANDLCToLength ! (CanardCANLengthToDLC ! mtu_bytes ins)
                 else CanardCANDLCToLength ! (CanardCANLengthToDLC ! max_index))
      in mtu - 1)"

text \<open>
  \<^verbatim>\<open>makeCANID\<close>.  The source keeps the session specifier in a signed 32-bit
  \<open>out\<close> and tests \<open>out >= 0\<close>; a specifier has no bit above bit 25
  (\<open>message_specifier_bits\<close>, \<open>service_specifier_bits\<close> below), so the test
  separates exactly the error from the specifier.
\<close>

definition makeCANID :: "CanardTransfer \<Rightarrow> CanardNodeID \<Rightarrow> nat \<Rightarrow> CanardError + 32 word" where
  "makeCANID tr local_node_id presentation_layer_mtu =
     (let out =
        (if tr_transfer_kind tr = CanardTransferKindMessage \<and>
            CANARD_NODE_ID_UNSET = tr_remote_node_id tr \<and>
            tr_port_id tr \<le> CANARD_SUBJECT_ID_MAX
         then
           (if local_node_id \<le> CANARD_NODE_ID_MAX
            then Inr (makeMessageSessionSpecifier (tr_port_id tr) local_node_id)
            else if tr_payload_size tr \<le> presentation_layer_mtu
            then
              (let c = ucast (crcAdd CRC_INITIAL (tr_payload_size tr) (bytes_at (tr_payload tr)))
                         AND CANARD_NODE_ID_MAX;
                   spec = makeMessageSessionSpecifier (tr_port_id tr) c OR FLAG_ANONYMOUS_MESSAGE
               in Inr spec)
            else Inl CANARD_ERROR_INVALID_ARGUMENT)
         else if (tr_transfer_kind tr = CanardTransferKindRequest \<or>
                  tr_transfer_kind tr = CanardTransferKindResponse) \<and>
                 tr_remote_node_id tr \<le> CANARD_NODE_ID_MAX \<and>
                 tr_port_id tr \<le> CANARD_SERVICE_ID_MAX
         then
           (if local_node_id \<le> CANARD_NODE_ID_MAX
            then Inr (makeServiceSessionSpecifier (tr_port_id tr)
                        (tr_transfer_kind tr = CanardTransferKindRequest)
                        local_node_id (tr_remote_node_id tr))
            else Inl CANARD_ERROR_INVALID_ARGUMENT)
         else Inl CANARD_ERROR_INVALID_ARGUMENT)
      in case out of
           Inr spec \<Rightarrow>
             (let prio = tr_priority tr
              in if prio \<le> CANARD_PRIORITY_MAX
                 then Inr (spec OR push_bit OFFSET_PRIORITY (of_nat prio))
                 else Inl CANARD_ERROR_INVALID_ARGUMENT)
         | Inl e \<Rightarrow> Inl e)"

definition makeTailByte :: "bool \<Rightarrow> bool \<Rightarrow> bool \<Rightarrow> CanardTransferID \<Rightarrow> 8 word" where
  "makeTailByte start_of_transfer end_of_transfer toggle transfer_id =
     (if start_of_transfer then TAIL_START_OF_TRANSFER else 0) OR
     (if end_of_transfer then TAIL_END_OF_TRANSFER else 0) OR
     (if toggle then TAIL_TOGGLE else 0) OR (transfer_id AND CANARD_TRANSFER_ID_MAX)"

text \<open>Indices outside the tables are outside the source's assertions and unspecified here.\<close>

definition roundFramePayloadSizeUp :: "nat \<Rightarrow> nat" where
  "roundFramePayloadSizeUp x = (let y = CanardCANLengthToDLC ! x in CanardCANDLCToLength ! y)"

definition allocateTxQueueItem ::
  "'m CanardInstance \<Rightarrow> 32 word \<Rightarrow> CanardMicrosecond \<Rightarrow> nat
     \<Rightarrow> CanardInternalTxQueueItem option \<times> 'm CanardInstance" where
  "allocateTxQueueItem ins ident deadline_usec payload_size =
     (case memory_allocate ins (memory ins) (sizeof_CanardInternalTxQueueItem + payload_size) of
        (None, m) \<Rightarrow> (None, ins\<lparr>memory := m\<rparr>)
      | (Some a, m) \<Rightarrow>
          (Some \<lparr>tqi_addr = a, tqi_deadline_usec = deadline_usec,
                 tqi_payload_size = payload_size, tqi_id = ident, tqi_payload = []\<rparr>,
           ins\<lparr>memory := m\<rparr>))"

text \<open>
  \<^verbatim>\<open>findTxQueueSupremum\<close> returns a pointer to an item of the queue or \<^verbatim>\<open>NULL\<close>;
  here it returns the position of that item in the queue or \<open>None\<close>.  The loop
  function walks with \<open>out\<close> at position \<open>i\<close>, \<open>q\<close> being the queue from \<open>out\<close> on.
\<close>

fun findTxQueueSupremum_loop :: "32 word \<Rightarrow> CanardInternalTxQueueItem list \<Rightarrow> nat \<Rightarrow> nat" where
  "findTxQueueSupremum_loop can_id (out # nxt # q) i =
     (if tqi_id nxt \<le> can_id then findTxQueueSupremum_loop can_id (nxt # q) (i + 1) else i)"
| "findTxQueueSupremum_loop can_id q i = i"

definition findTxQueueSupremum :: "'m CanardInstance \<Rightarrow> 32 word \<Rightarrow> nat option" where
  "findTxQueueSupremum ins can_id =
     (case tx_queue ins of
        [] \<Rightarrow> None
      | out # q \<Rightarrow>
          if tqi_id out > can_id then None
          else Some (findTxQueueSupremum_loop can_id (out # q) 0))"

text \<open>
  Linking a chain of items behind the supremum (\<^verbatim>\<open>tail->next = sup->next;
  sup->next = head\<close>) or in front of the queue (\<^verbatim>\<open>tail->next = ins->_tx_queue;
  ins->_tx_queue = head\<close>).
\<close>

definition insert_after :: "nat option \<Rightarrow> 'a list \<Rightarrow> 'a list \<Rightarrow> 'a list" where
  "insert_after supremum chain q =
     (case supremum of
        None \<Rightarrow> chain @ q
      | Some i \<Rightarrow> take (i + 1) q @ chain @ drop (i + 1) q)"

definition pushSingleFrameTransfer ::
  "'m CanardInstance \<Rightarrow> CanardMicrosecond \<Rightarrow> 32 word \<Rightarrow> CanardTransferID \<Rightarrow> nat
     \<Rightarrow> 8 word list option \<Rightarrow> (CanardError + nat) \<times> 'm CanardInstance" where
  "pushSingleFrameTransfer ins deadline_usec can_id transfer_id payload_size payload =
     (let frame_payload_size = roundFramePayloadSizeUp (payload_size + 1);
          padding_size = frame_payload_size - payload_size - 1
      in case allocateTxQueueItem ins can_id deadline_usec frame_payload_size of
           (Some tqi, ins1) \<Rightarrow>
             (let copied = (if payload_size > 0 then take payload_size (bytes_at payload) else []);
                  padded = copied @ replicate padding_size PADDING_BYTE;
                  tqi1 = tqi\<lparr>tqi_payload := padded @ [makeTailByte True True True transfer_id]\<rparr>;
                  supremum = findTxQueueSupremum ins1 can_id
              in (Inr 1, ins1\<lparr>tx_queue := insert_after supremum [tqi1] (tx_queue ins1)\<rparr>))
         | (None, ins1) \<Rightarrow> (Inl CANARD_ERROR_OUT_OF_MEMORY, ins1))"

text \<open>
  The padding loop of \<^verbatim>\<open>pushMultiFrameTransfer\<close>.  \<open>buf\<close> is the frame payload
  written so far; a write \<^verbatim>\<open>tail->payload[frame_offset] = x; ++frame_offset;\<close>
  appends \<open>x\<close>, every write of the source going to the position right after the
  last one written.
\<close>

function pushMultiFrameTransfer_padding ::
  "nat \<Rightarrow> 8 word list \<Rightarrow> nat \<Rightarrow> TransferCRC \<Rightarrow> 8 word list \<times> nat \<times> TransferCRC" where
  "pushMultiFrameTransfer_padding frame_payload_size buf frame_offset crc =
     (if frame_offset + CRC_SIZE_BYTES < frame_payload_size
      then pushMultiFrameTransfer_padding frame_payload_size (buf @ [PADDING_BYTE])
             (frame_offset + 1) (crcAddByte crc PADDING_BYTE)
      else (buf, frame_offset, crc))"
  by pat_completeness auto
termination
  by (relation "measure (\<lambda>(frame_payload_size, buf, frame_offset, crc).
                           frame_payload_size - frame_offset)") auto

declare pushMultiFrameTransfer_padding.simps [simp del]

text \<open>
  The body of the main loop of \<^verbatim>\<open>pushMultiFrameTransfer\<close> from the copy of the
  payload to the tail byte, for a frame whose item was allocated.  It returns the
  payload of the frame and the new values of \<open>offset\<close>, \<open>crc\<close> and \<open>payload_ptr\<close>
  (the user's payload from the read position on).
\<close>

definition pushMultiFrameTransfer_frame ::
  "nat \<Rightarrow> CanardTransferID \<Rightarrow> nat \<Rightarrow> nat \<Rightarrow> TransferCRC \<Rightarrow> bool \<Rightarrow> bool \<Rightarrow> 8 word list
     \<Rightarrow> 8 word list \<times> nat \<times> TransferCRC \<times> 8 word list" where
  "pushMultiFrameTransfer_frame frame_payload_size_with_tail transfer_id payload_size offset crc
       start_of_transfer toggle payload_ptr =
     (let frame_payload_size = frame_payload_size_with_tail - 1;
          (buf1, frame_offset1, offset1, payload_ptr1) =
            (if offset < payload_size
             then
               (let move_size0 = payload_size - offset;
                    move_size = (if move_size0 > frame_payload_size then frame_payload_size
                                 else move_size0)
                in (take move_size payload_ptr, 0 + move_size, offset + move_size,
                    drop move_size payload_ptr))
             else ([], 0, offset, payload_ptr));
          (buf4, frame_offset4, offset4, crc4) =
            (if offset1 \<ge> payload_size
             then
               (let (buf2, frame_offset2, crc2) =
                      pushMultiFrameTransfer_padding frame_payload_size buf1 frame_offset1 crc;
                    (buf3, frame_offset3, offset3) =
                      (if frame_offset2 < frame_payload_size \<and> offset1 = payload_size
                       then (buf2 @ [ucast (drop_bit BITS_PER_BYTE crc2)],
                             frame_offset2 + 1, offset1 + 1)
                       else (buf2, frame_offset2, offset1))
                in if frame_offset3 < frame_payload_size \<and> offset3 > payload_size
                   then (buf3 @ [ucast (crc2 AND BYTE_MAX)], frame_offset3 + 1, offset3 + 1, crc2)
                   else (buf3, frame_offset3, offset3, crc2))
             else (buf1, frame_offset1, offset1, crc))
      in (buf4 @ [makeTailByte start_of_transfer (offset4 \<ge> payload_size + CRC_SIZE_BYTES)
                    toggle transfer_id],
          offset4, crc4, payload_ptr1))"

text \<open>
  The main loop.  \<open>chain\<close> is the list of the items linked from \<open>head\<close>.  The result
  is \<open>out\<close>, the chain, whether \<open>tail\<close> is \<^verbatim>\<open>NULL\<close> when the loop is left, and the
  instance.  The loop need not end for every argument (with a presentation-layer MTU
  of zero and an allocator that never fails it does not), so the function is partial:
  \<open>None\<close> means that the loop runs forever.
\<close>

partial_function (option) pushMultiFrameTransfer_loop ::
  "nat \<Rightarrow> CanardMicrosecond \<Rightarrow> 32 word \<Rightarrow> CanardTransferID \<Rightarrow> nat
     \<Rightarrow> nat \<Rightarrow> CanardInternalTxQueueItem list \<Rightarrow> nat \<Rightarrow> TransferCRC \<Rightarrow> bool \<Rightarrow> bool
     \<Rightarrow> 8 word list \<Rightarrow> 'm CanardInstance
     \<Rightarrow> (nat \<times> CanardInternalTxQueueItem list \<times> bool \<times> 'm CanardInstance) option" where
  "pushMultiFrameTransfer_loop presentation_layer_mtu deadline_usec can_id transfer_id payload_size
       out chain offset crc start_of_transfer toggle payload_ptr ins =
     (if offset < payload_size + CRC_SIZE_BYTES
      then
        (let frame_payload_size_with_tail =
               (if (payload_size + CRC_SIZE_BYTES - offset) < presentation_layer_mtu
                then roundFramePayloadSizeUp ((payload_size + CRC_SIZE_BYTES - offset) + 1)
                else presentation_layer_mtu + 1)
         in case allocateTxQueueItem ins can_id deadline_usec frame_payload_size_with_tail of
              (None, ins1) \<Rightarrow> Some (out + 1, chain, True, ins1)
            | (Some tqi, ins1) \<Rightarrow>
                (case pushMultiFrameTransfer_frame frame_payload_size_with_tail transfer_id
                        payload_size offset crc start_of_transfer toggle payload_ptr of
                   (buf, offset1, crc1, payload_ptr1) \<Rightarrow>
                     pushMultiFrameTransfer_loop presentation_layer_mtu deadline_usec can_id
                       transfer_id payload_size (out + 1) (chain @ [tqi\<lparr>tqi_payload := buf\<rparr>])
                       offset1 crc1 False (\<not> toggle) payload_ptr1 ins1))
      else Some (out, chain, chain = [], ins))"

declare pushMultiFrameTransfer_loop.simps [code]

text \<open>The loop that frees the chain after a failed allocation.\<close>

fun pushMultiFrameTransfer_free ::
  "'m CanardInstance \<Rightarrow> CanardInternalTxQueueItem list \<Rightarrow> 'm CanardInstance" where
  "pushMultiFrameTransfer_free ins [] = ins"
| "pushMultiFrameTransfer_free ins (head # nxt) =
     pushMultiFrameTransfer_free
       (ins\<lparr>memory := memory_free ins (memory ins) (Some (tqi_addr head))\<rparr>) nxt"

definition pushMultiFrameTransfer ::
  "'m CanardInstance \<Rightarrow> nat \<Rightarrow> CanardMicrosecond \<Rightarrow> 32 word \<Rightarrow> CanardTransferID \<Rightarrow> nat
     \<Rightarrow> 8 word list option \<Rightarrow> ((CanardError + nat) \<times> 'm CanardInstance) option" where
  "pushMultiFrameTransfer ins presentation_layer_mtu deadline_usec can_id transfer_id payload_size
       payload =
     (case pushMultiFrameTransfer_loop presentation_layer_mtu deadline_usec can_id transfer_id
             payload_size 0 [] 0 (crcAdd CRC_INITIAL payload_size (bytes_at payload)) True True
             (bytes_at payload) ins of
        None \<Rightarrow> None
      | Some (out, chain, tail_is_null, ins1) \<Rightarrow>
          if \<not> tail_is_null
          then
            (let supremum = findTxQueueSupremum ins1 can_id
             in Some (Inr out, ins1\<lparr>tx_queue := insert_after supremum chain (tx_queue ins1)\<rparr>))
          else Some (Inl CANARD_ERROR_OUT_OF_MEMORY, pushMultiFrameTransfer_free ins1 chain))"

section \<open>Public interface: initialisation and transmission\<close>

text \<open>
  \<^verbatim>\<open>canardInit\<close>; \<open>m\<close> is the state of the user's memory manager at that moment.
\<close>

definition canardInit ::
  "('m \<Rightarrow> nat \<Rightarrow> nat option \<times> 'm) \<Rightarrow> ('m \<Rightarrow> nat option \<Rightarrow> 'm) \<Rightarrow> 'm \<Rightarrow> 'm CanardInstance" where
  "canardInit allocate free m =
     \<lparr>mtu_bytes = CANARD_MTU_CAN_FD, node_id = CANARD_NODE_ID_UNSET, memory = m,
      memory_allocate = allocate, memory_free = free,
      rx_subscriptions = (\<lambda>kind. []), tx_queue = []\<rparr>"

text \<open>
  A pointer argument is \<open>None\<close> for \<^verbatim>\<open>NULL\<close>.  The result of \<^verbatim>\<open>canardTxPush\<close> is
  the returned value and the instance after the call; it is \<open>None\<close> when the call
  does not return.
\<close>

definition canardTxPush ::
  "'m CanardInstance option \<Rightarrow> CanardTransfer option
     \<Rightarrow> ((CanardError + nat) \<times> 'm CanardInstance option) option" where
  "canardTxPush ins_ptr transfer_ptr =
     (case (ins_ptr, transfer_ptr) of
        (Some ins, Some transfer) \<Rightarrow>
          if tr_payload transfer \<noteq> None \<or> 0 = tr_payload_size transfer
          then
            (let pl_mtu = getPresentationLayerMTU ins;
                 maybe_can_id = makeCANID transfer (node_id ins) pl_mtu
             in case maybe_can_id of
                  Inr can_id \<Rightarrow>
                    if tr_payload_size transfer \<le> pl_mtu
                    then
                      (case pushSingleFrameTransfer ins (tr_timestamp_usec transfer) can_id
                              (tr_transfer_id transfer) (tr_payload_size transfer)
                              (tr_payload transfer) of
                         (out, ins1) \<Rightarrow> Some (out, Some ins1))
                    else
                      (case pushMultiFrameTransfer ins pl_mtu (tr_timestamp_usec transfer) can_id
                              (tr_transfer_id transfer) (tr_payload_size transfer)
                              (tr_payload transfer) of
                         None \<Rightarrow> None
                       | Some (out, ins1) \<Rightarrow> Some (out, Some ins1))
                | Inl e \<Rightarrow> Some (Inl e, Some ins))
          else Some (Inl CANARD_ERROR_INVALID_ARGUMENT, ins_ptr)
      | _ \<Rightarrow> Some (Inl CANARD_ERROR_INVALID_ARGUMENT, ins_ptr))"

definition canardTxPeek ::
  "'m CanardInstance option \<Rightarrow> CanardFrame option \<Rightarrow> (CanardError + nat) \<times> CanardFrame option" where
  "canardTxPeek ins_ptr out_frame =
     (case (ins_ptr, out_frame) of
        (Some ins, Some f) \<Rightarrow>
          (case tx_queue ins of
             tqi # nxt \<Rightarrow>
               (Inr 1, Some (f\<lparr>fr_timestamp_usec := tqi_deadline_usec tqi,
                               fr_extended_can_id := tqi_id tqi,
                               fr_payload_size := tqi_payload_size tqi,
                               fr_payload := Some (tqi_payload tqi)\<rparr>))
           | [] \<Rightarrow> (Inr 0, out_frame))
      | _ \<Rightarrow> (Inl CANARD_ERROR_INVALID_ARGUMENT, out_frame))"

definition canardTxPop :: "'m CanardInstance option \<Rightarrow> 'm CanardInstance option" where
  "canardTxPop ins_ptr =
     (case ins_ptr of
        None \<Rightarrow> None
      | Some ins \<Rightarrow>
          (case tx_queue ins of
             [] \<Rightarrow> Some ins
           | head # nxt \<Rightarrow>
               Some (ins\<lparr>memory := memory_free ins (memory ins) (Some (tqi_addr head)),
                         tx_queue := nxt\<rparr>)))"

section \<open>Reception\<close>

definition SESSIONS_PER_SUBSCRIPTION :: nat where
  "SESSIONS_PER_SUBSCRIPTION = unat CANARD_NODE_ID_MAX + 1"

text \<open>The high-level model of a received frame.\<close>

record FrameModel =
  fm_timestamp_usec :: CanardMicrosecond
  fm_priority :: nat
  fm_transfer_kind :: nat
  fm_port_id :: CanardPortID
  fm_source_node_id :: CanardNodeID
  fm_destination_node_id :: CanardNodeID
  fm_transfer_id :: CanardTransferID
  fm_start_of_transfer :: bool
  fm_end_of_transfer :: bool
  fm_toggle :: bool
  fm_payload_size :: nat
  fm_payload :: "8 word list option"

text \<open>The zero-initialised model of \<^verbatim>\<open>FrameModel model = {0}\<close>.\<close>

definition FrameModel_zero :: FrameModel where
  "FrameModel_zero =
     \<lparr>fm_timestamp_usec = 0, fm_priority = 0, fm_transfer_kind = 0, fm_port_id = 0,
      fm_source_node_id = 0, fm_destination_node_id = 0, fm_transfer_id = 0,
      fm_start_of_transfer = False, fm_end_of_transfer = False, fm_toggle = False,
      fm_payload_size = 0, fm_payload = None\<rparr>"

text \<open>
  \<^verbatim>\<open>tryParseFrame\<close> returns whether the frame is valid and writes the model through
  \<open>out_result\<close>; here it returns both.  The tail byte is read at the index
  \<open>payload_size - 1\<close> of the frame's buffer.
\<close>

definition tryParseFrame :: "CanardFrame \<Rightarrow> FrameModel \<Rightarrow> bool \<times> FrameModel" where
  "tryParseFrame frame out_result =
     (if fr_payload_size frame > 0
      then
        (let r0 = out_result\<lparr>fm_timestamp_usec := fr_timestamp_usec frame\<rparr>;
             can_id = fr_extended_can_id frame;
             r1 = r0\<lparr>fm_priority :=
                        unat (drop_bit OFFSET_PRIORITY can_id AND of_nat CANARD_PRIORITY_MAX),
                     fm_source_node_id := ucast (can_id AND ucast CANARD_NODE_ID_MAX)\<rparr>;
             (valid1, r2) =
               (if 0 = (can_id AND FLAG_SERVICE_NOT_MESSAGE)
                then
                  (0 = (can_id AND FLAG_RESERVED_23) \<and> 0 = (can_id AND FLAG_RESERVED_07),
                   r1\<lparr>fm_transfer_kind := CanardTransferKindMessage,
                      fm_port_id :=
                        ucast (drop_bit OFFSET_SUBJECT_ID can_id AND ucast CANARD_SUBJECT_ID_MAX),
                      fm_source_node_id :=
                        (if (can_id AND FLAG_ANONYMOUS_MESSAGE) \<noteq> 0 then CANARD_NODE_ID_UNSET
                         else fm_source_node_id r1),
                      fm_destination_node_id := CANARD_NODE_ID_UNSET\<rparr>)
                else
                  (0 = (can_id AND FLAG_RESERVED_23),
                   r1\<lparr>fm_transfer_kind :=
                        (if (can_id AND FLAG_REQUEST_NOT_RESPONSE) \<noteq> 0
                         then CanardTransferKindRequest else CanardTransferKindResponse),
                      fm_port_id :=
                        ucast (drop_bit OFFSET_SERVICE_ID can_id AND ucast CANARD_SERVICE_ID_MAX),
                      fm_destination_node_id :=
                        ucast (drop_bit OFFSET_DST_NODE_ID can_id AND ucast CANARD_NODE_ID_MAX)\<rparr>));
             r3 = r2\<lparr>fm_payload_size := fr_payload_size frame - 1,
                     fm_payload := fr_payload frame\<rparr>;
             tail = bytes_at (fm_payload r3) ! fm_payload_size r3;
             r4 = r3\<lparr>fm_transfer_id := tail AND CANARD_TRANSFER_ID_MAX,
                     fm_start_of_transfer := ((tail AND TAIL_START_OF_TRANSFER) \<noteq> 0),
                     fm_end_of_transfer := ((tail AND TAIL_END_OF_TRANSFER) \<noteq> 0),
                     fm_toggle := ((tail AND TAIL_TOGGLE) \<noteq> 0)\<rparr>;
             valid2 = (valid1 \<and> (if fm_start_of_transfer r4 then fm_toggle r4 else True));
             valid3 = (valid2 \<and>
                       (if CANARD_NODE_ID_UNSET = fm_source_node_id r4
                        then fm_start_of_transfer r4 \<and> fm_end_of_transfer r4
                        else True))
         in (valid3, r4))
      else (False, out_result))"

definition initRxTransferFromFrame :: "FrameModel \<Rightarrow> CanardTransfer \<Rightarrow> CanardTransfer" where
  "initRxTransferFromFrame frame out_transfer =
     out_transfer\<lparr>tr_timestamp_usec := fm_timestamp_usec frame,
                  tr_priority := fm_priority frame,
                  tr_transfer_kind := fm_transfer_kind frame,
                  tr_port_id := fm_port_id frame,
                  tr_remote_node_id := fm_source_node_id frame,
                  tr_transfer_id := fm_transfer_id frame,
                  tr_payload_size := fm_payload_size frame,
                  tr_payload := fm_payload frame\<rparr>"

text \<open>
  \<^verbatim>\<open>updateRxSession\<close> as the source has it: it returns zero and writes through
  none of its pointers.  The result is the returned value with the instance, the
  session and the transfer as they are after the call.
\<close>

definition updateRxSession ::
  "'m CanardInstance \<Rightarrow> CanardInternalRxSession \<Rightarrow> FrameModel \<Rightarrow> 8 word \<Rightarrow> CanardMicrosecond
     \<Rightarrow> nat \<Rightarrow> CanardTransfer
     \<Rightarrow> (CanardError + nat) \<times> 'm CanardInstance \<times> CanardInternalRxSession \<times> CanardTransfer" where
  "updateRxSession ins rxs frame iface_index transfer_id_timeout_usec payload_size_bytes_max
       out_transfer =
     (let out = Inr 0 in (out, ins, rxs, out_transfer))"

text \<open>
  The search of \<^verbatim>\<open>acceptFrame\<close> through the list of subscriptions: the position of
  the first subscription with the port-ID, or \<open>None\<close> when the search ends at \<^verbatim>\<open>NULL\<close>.
\<close>

fun find_subscription :: "CanardRxSubscription list \<Rightarrow> CanardPortID \<Rightarrow> nat \<Rightarrow> nat option" where
  "find_subscription [] port_id i = None"
| "find_subscription (sub # nxt) port_id i =
     (if sub_port_id sub \<noteq> port_id then find_subscription nxt port_id (i + 1) else Some i)"

definition acceptFrame ::
  "'m CanardInstance \<Rightarrow> FrameModel \<Rightarrow> 8 word \<Rightarrow> CanardTransfer
     \<Rightarrow> (CanardError + nat) \<times> 'm CanardInstance \<times> CanardTransfer" where
  "acceptFrame ins frame iface_index out_transfer =
     (let subs = rx_subscriptions ins (fm_transfer_kind frame)
      in case find_subscription subs (fm_port_id frame) 0 of
           None \<Rightarrow> (Inr 0, ins, out_transfer)
         | Some j \<Rightarrow>
             (let sub = subs ! j; src = unat (fm_source_node_id frame)
              in if fm_source_node_id frame \<le> CANARD_NODE_ID_MAX
                 then
                   (let (out1, sub1, ins1) =
                          (if sub_sessions sub ! src = None \<and> fm_start_of_transfer frame
                           then
                             (case memory_allocate ins (memory ins)
                                     (sizeof_CanardInternalRxSession +
                                      sub_payload_size_bytes_max sub) of
                                (Some a, m) \<Rightarrow>
                                  (Inr 0,
                                   sub\<lparr>sub_sessions := (sub_sessions sub)
                                          [src := Some
                                             \<lparr>rxs_addr = a,
                                              rxs_transfer_timestamp_usec = fm_timestamp_usec frame,
                                              rxs_payload_size = 0, rxs_payload = None,
                                              rxs_calculated_crc = CRC_INITIAL,
                                              rxs_toggle_and_transfer_id = TAIL_TOGGLE,
                                              rxs_iface_index = 0\<rparr>]\<rparr>,
                                   ins\<lparr>memory := m\<rparr>)
                              | (None, m) \<Rightarrow>
                                  (Inl CANARD_ERROR_OUT_OF_MEMORY,
                                   sub\<lparr>sub_sessions := (sub_sessions sub)[src := None]\<rparr>,
                                   ins\<lparr>memory := m\<rparr>))
                           else (Inr 0, sub, ins))
                    in case sub_sessions sub1 ! src of
                         Some rxs \<Rightarrow>
                           (case updateRxSession ins1 rxs frame iface_index
                                   (sub_transfer_id_timeout_usec sub1)
                                   (sub_payload_size_bytes_max sub1) out_transfer of
                              (out2, ins2, rxs2, out_transfer2) \<Rightarrow>
                                (out2,
                                 ins2\<lparr>rx_subscriptions := (rx_subscriptions ins2)
                                        (fm_transfer_kind frame :=
                                           subs[j := sub1\<lparr>sub_sessions := (sub_sessions sub1)
                                                          [src := Some rxs2]\<rparr>])\<rparr>,
                                 out_transfer2))
                       | None \<Rightarrow>
                           (out1,
                            ins1\<lparr>rx_subscriptions := (rx_subscriptions ins1)
                                   (fm_transfer_kind frame := subs[j := sub1])\<rparr>,
                            out_transfer))
                 else (Inr 1, ins, initRxTransferFromFrame frame out_transfer)))"

section \<open>Public interface: reception\<close>

text \<open>
  \<^verbatim>\<open>canardRxAccept\<close>.  The result is the returned value, the instance and the
  contents of \<open>out_transfer\<close> after the call (each \<open>None\<close> for a \<^verbatim>\<open>NULL\<close> pointer).
\<close>

definition canardRxAccept ::
  "'m CanardInstance option \<Rightarrow> CanardFrame option \<Rightarrow> 8 word \<Rightarrow> CanardTransfer option
     \<Rightarrow> (CanardError + nat) \<times> 'm CanardInstance option \<times> CanardTransfer option" where
  "canardRxAccept ins_ptr frame_ptr iface_index out_transfer_ptr =
     (case (ins_ptr, out_transfer_ptr, frame_ptr) of
        (Some ins, Some out_transfer, Some frame) \<Rightarrow>
          if fr_extended_can_id frame \<le> CAN_EXT_ID_MASK \<and>
             (fr_payload frame \<noteq> None \<or> 0 = fr_payload_size frame)
          then
            (case tryParseFrame frame FrameModel_zero of
               (True, model) \<Rightarrow>
                 if CANARD_NODE_ID_UNSET = fm_destination_node_id model \<or>
                    node_id ins = fm_destination_node_id model
                 then
                   (case acceptFrame ins model iface_index out_transfer of
                      (out, ins1, out_transfer1) \<Rightarrow> (out, Some ins1, Some out_transfer1))
                 else (Inr 0, ins_ptr, out_transfer_ptr)
             | (False, model) \<Rightarrow> (Inr 0, ins_ptr, out_transfer_ptr))
          else (Inl CANARD_ERROR_INVALID_ARGUMENT, ins_ptr, out_transfer_ptr)
      | _ \<Rightarrow> (Inl CANARD_ERROR_INVALID_ARGUMENT, ins_ptr, out_transfer_ptr))"

text \<open>
  \<^verbatim>\<open>canardRxUnsubscribe\<close>: the subscription is unlinked and, for each of its session
  slots, the session's payload buffer and the session are handed to the free function
  (\<^verbatim>\<open>NULL\<close> where there is none).
\<close>

fun canardRxUnsubscribe_free ::
  "'m CanardInstance \<Rightarrow> CanardInternalRxSession option list \<Rightarrow> 'm CanardInstance" where
  "canardRxUnsubscribe_free ins [] = ins"
| "canardRxUnsubscribe_free ins (s # slots) =
     (let m1 = memory_free ins (memory ins) (case s of Some rxs \<Rightarrow> rxs_payload rxs | None \<Rightarrow> None);
          m2 = memory_free ins m1 (map_option rxs_addr s)
      in canardRxUnsubscribe_free (ins\<lparr>memory := m2\<rparr>) slots)"

definition canardRxUnsubscribe ::
  "'m CanardInstance option \<Rightarrow> nat \<Rightarrow> CanardPortID \<Rightarrow> (CanardError + nat) \<times> 'm CanardInstance option" where
  "canardRxUnsubscribe ins_ptr transfer_kind port_id =
     (case ins_ptr of
        Some ins \<Rightarrow>
          if transfer_kind < CANARD_NUM_TRANSFER_KINDS
          then
            (let subs = rx_subscriptions ins transfer_kind
             in case find_subscription subs port_id 0 of
                  Some j \<Rightarrow>
                    (let ins1 = ins\<lparr>rx_subscriptions := (rx_subscriptions ins)
                                    (transfer_kind := take j subs @ drop (j + 1) subs)\<rparr>
                     in (Inr 1,
                         Some (canardRxUnsubscribe_free ins1
                                 (take SESSIONS_PER_SUBSCRIPTION (sub_sessions (subs ! j))))))
                | None \<Rightarrow> (Inr 0, ins_ptr))
          else (Inl CANARD_ERROR_INVALID_ARGUMENT, ins_ptr)
      | None \<Rightarrow> (Inl CANARD_ERROR_INVALID_ARGUMENT, ins_ptr))"

text \<open>
  \<^verbatim>\<open>canardRxSubscribe\<close>.  \<open>out_subscription\<close> is the caller's storage for the
  subscription (\<open>None\<close> for \<^verbatim>\<open>NULL\<close>); the call overwrites every field of it and
  links it in front of the list of its kind.
\<close>

definition canardRxSubscribe ::
  "'m CanardInstance option \<Rightarrow> nat \<Rightarrow> CanardPortID \<Rightarrow> nat \<Rightarrow> CanardMicrosecond
     \<Rightarrow> CanardRxSubscription option \<Rightarrow> (CanardError + nat) \<times> 'm CanardInstance option" where
  "canardRxSubscribe ins_ptr transfer_kind port_id payload_size_bytes_max transfer_id_timeout_usec
       out_subscription =
     (case (ins_ptr, out_subscription) of
        (Some ins, Some storage) \<Rightarrow>
          if transfer_kind < CANARD_NUM_TRANSFER_KINDS
          then
            (case canardRxUnsubscribe ins_ptr transfer_kind port_id of
               (Inr out, Some ins1) \<Rightarrow>
                 (let sub = \<lparr>sub_port_id = port_id,
                             sub_payload_size_bytes_max = payload_size_bytes_max,
                             sub_transfer_id_timeout_usec = transfer_id_timeout_usec,
                             sub_sessions = replicate SESSIONS_PER_SUBSCRIPTION None\<rparr>
                  in (Inr (if out > 0 then 0 else 1),
                      Some (ins1\<lparr>rx_subscriptions := (rx_subscriptions ins1)
                                  (transfer_kind := sub # rx_subscriptions ins1 transfer_kind)\<rparr>)))
             | (out, ins1) \<Rightarrow> (out, ins1))
          else (Inl CANARD_ERROR_INVALID_ARGUMENT, ins_ptr)
      | _ \<Rightarrow> (Inl CANARD_ERROR_INVALID_ARGUMENT, ins_ptr))"

section \<open>Predicates used to state the properties\<close>

text \<open>
  The node-ID of an instance is a valid node-ID or the sentinel (the
  specification's range of the configuration value).
\<close>

definition node_id_configured :: "'m CanardInstance \<Rightarrow> bool" where
  "node_id_configured ins = (node_id ins \<le> CANARD_NODE_ID_MAX \<or> node_id ins = CANARD_NODE_ID_UNSET)"

text \<open>
  The specification's list of the arguments that \<^verbatim>\<open>canardTxPush\<close> rejects as
  invalid, in its words.
\<close>

definition spec_service_kind :: "nat \<Rightarrow> bool" where
  "spec_service_kind k = (k = CanardTransferKindRequest \<or> k = CanardTransferKindResponse)"

definition spec_push_invalid :: "'m CanardInstance \<Rightarrow> CanardTransfer \<Rightarrow> bool" where
  "spec_push_invalid ins tr =
     ((tr_transfer_kind tr = CanardTransferKindMessage \<and>
         (tr_remote_node_id tr \<noteq> CANARD_NODE_ID_UNSET \<or> tr_port_id tr > 8191))
      \<or> (spec_service_kind (tr_transfer_kind tr) \<and>
         (tr_remote_node_id tr = CANARD_NODE_ID_UNSET \<or> tr_remote_node_id tr > 127 \<or>
          tr_port_id tr > 511))
      \<or> (node_id ins = CANARD_NODE_ID_UNSET \<and> spec_service_kind (tr_transfer_kind tr))
      \<or> (node_id ins = CANARD_NODE_ID_UNSET \<and> tr_payload_size tr > getPresentationLayerMTU ins)
      \<or> tr_priority tr > 7
      \<or> (tr_transfer_kind tr \<noteq> CanardTransferKindMessage \<and>
          \<not> spec_service_kind (tr_transfer_kind tr))
      \<or> (tr_payload tr = None \<and> tr_payload_size tr \<noteq> 0))"

definition spec_push_rejected :: "'m CanardInstance option \<Rightarrow> CanardTransfer option \<Rightarrow> bool" where
  "spec_push_rejected ins_ptr transfer_ptr =
     (case (ins_ptr, transfer_ptr) of
        (Some ins, Some tr) \<Rightarrow> spec_push_invalid ins tr
      | _ \<Rightarrow> True)"

definition instance_configured :: "'m CanardInstance option \<Rightarrow> bool" where
  "instance_configured ins_ptr =
     (case ins_ptr of Some ins \<Rightarrow> node_id_configured ins | None \<Rightarrow> True)"

text \<open>
  Recording the calls of the library to the user's allocator.  Any pair of allocator
  functions on a memory state \<open>m\<close> is turned into a pair on \<open>(m, log)\<close> that behaves in
  the same way on \<open>m\<close> and appends each call with its result to the log.
\<close>

datatype MemoryEvent = Allocated nat "nat option" | Freed "nat option"

definition logged_allocate ::
  "('m \<Rightarrow> nat \<Rightarrow> nat option \<times> 'm) \<Rightarrow> 'm \<times> MemoryEvent list \<Rightarrow> nat
     \<Rightarrow> nat option \<times> 'm \<times> MemoryEvent list" where
  "logged_allocate allocate s n =
     (case allocate (fst s) n of (p, m) \<Rightarrow> (p, (m, snd s @ [Allocated n p])))"

definition logged_free ::
  "('m \<Rightarrow> nat option \<Rightarrow> 'm) \<Rightarrow> 'm \<times> MemoryEvent list \<Rightarrow> nat option
     \<Rightarrow> 'm \<times> MemoryEvent list" where
  "logged_free free s p = (free (fst s) p, snd s @ [Freed p])"

fun allocated_blocks :: "MemoryEvent list \<Rightarrow> nat list" where
  "allocated_blocks [] = []"
| "allocated_blocks (Allocated n (Some a) # es) = a # allocated_blocks es"
| "allocated_blocks (e # es) = allocated_blocks es"

fun freed_blocks :: "MemoryEvent list \<Rightarrow> nat list" where
  "freed_blocks [] = []"
| "freed_blocks (Freed (Some a) # es) = a # freed_blocks es"
| "freed_blocks (e # es) = freed_blocks es"

fun failed_allocation :: "MemoryEvent list \<Rightarrow> bool" where
  "failed_allocation [] = False"
| "failed_allocation (Allocated n None # es) = True"
| "failed_allocation (e # es) = failed_allocation es"

text \<open>
  An allocator for the examples: its state is the next free address and the number
  of blocks it can still hand out.
\<close>

definition example_allocate :: "nat \<times> nat \<Rightarrow> nat \<Rightarrow> nat option \<times> nat \<times> nat" where
  "example_allocate s n =
     (if snd s = 0 then (None, s) else (Some (fst s), (fst s + n, snd s - 1)))"

definition example_free :: "nat \<times> nat \<Rightarrow> nat option \<Rightarrow> nat \<times> nat" where
  "example_free s p = (case p of None \<Rightarrow> s | Some a \<Rightarrow> (fst s, snd s + 1))"

text \<open>The fields of a tail byte, as \<^verbatim>\<open>tryParseFrame\<close> reads them.\<close>

definition tail_start_of_transfer :: "8 word \<Rightarrow> bool" where
  "tail_start_of_transfer tail = (tail AND TAIL_START_OF_TRANSFER \<noteq> 0)"

definition tail_end_of_transfer :: "8 word \<Rightarrow> bool" where
  "tail_end_of_transfer tail = (tail AND TAIL_END_OF_TRANSFER \<noteq> 0)"

definition tail_toggle :: "8 word \<Rightarrow> bool" where
  "tail_toggle tail = (tail AND TAIL_TOGGLE \<noteq> 0)"

definition tail_transfer_id :: "8 word \<Rightarrow> 8 word" where
  "tail_transfer_id tail = tail AND CANARD_TRANSFER_ID_MAX"

text \<open>The two bytes of a CRC as \<^verbatim>\<open>pushMultiFrameTransfer\<close> writes them.\<close>

definition crc_hi :: "TransferCRC \<Rightarrow> 8 word" where
  "crc_hi crc = ucast (drop_bit BITS_PER_BYTE crc)"

definition crc_lo :: "TransferCRC \<Rightarrow> 8 word" where
  "crc_lo crc = ucast (crc AND BYTE_MAX)"

text \<open>
  The size of the next frame, tail byte included, as the main loop of
  \<^verbatim>\<open>pushMultiFrameTransfer\<close> computes it.
\<close>

definition next_frame_size :: "nat \<Rightarrow> nat \<Rightarrow> nat \<Rightarrow> nat" where
  "next_frame_size presentation_layer_mtu payload_size offset =
     (if (payload_size + CRC_SIZE_BYTES - offset) < presentation_layer_mtu
      then roundFramePayloadSizeUp ((payload_size + CRC_SIZE_BYTES - offset) + 1)
      else presentation_layer_mtu + 1)"

text \<open>The order of the transmission queue: ascending CAN-ID from the head on.\<close>

definition queue_sorted :: "CanardInternalTxQueueItem list \<Rightarrow> bool" where
  "queue_sorted q = sorted_wrt (\<lambda>a b. tqi_id a \<le> tqi_id b) q"

text \<open>
  Sequences of calls on an instance: pushes, pops, and the changes of the two
  configuration fields the user may make between calls.  \<open>None\<close> means that a
  call does not return.
\<close>

datatype TxCall = Push CanardTransfer | Pop | SetMTU nat | SetNodeID CanardNodeID

fun tx_calls :: "'m CanardInstance \<Rightarrow> TxCall list \<Rightarrow> 'm CanardInstance option" where
  "tx_calls ins [] = Some ins"
| "tx_calls ins (Push t # cs) =
     (case canardTxPush (Some ins) (Some t) of
        Some (r, Some ins1) \<Rightarrow> tx_calls ins1 cs
      | _ \<Rightarrow> None)"
| "tx_calls ins (Pop # cs) =
     (case canardTxPop (Some ins) of Some ins1 \<Rightarrow> tx_calls ins1 cs | None \<Rightarrow> None)"
| "tx_calls ins (SetMTU n # cs) = tx_calls (ins\<lparr>mtu_bytes := n\<rparr>) cs"
| "tx_calls ins (SetNodeID n # cs) = tx_calls (ins\<lparr>node_id := n\<rparr>) cs"

text \<open>
  Instances and messages for the examples: an instance on Classic CAN and one on
  CAN FD (the MTU \<^verbatim>\<open>canardInit\<close> sets), a message with a given payload and the
  message of size 0 with the payload pointer \<^verbatim>\<open>NULL\<close>.
\<close>

definition example_instance :: "(nat \<times> nat) CanardInstance" where
  "example_instance =
     (canardInit example_allocate example_free (4096, 8))\<lparr>mtu_bytes := 8, node_id := 42\<rparr>"

definition example_message :: "nat \<Rightarrow> CanardPortID \<Rightarrow> 8 word list \<Rightarrow> CanardTransfer" where
  "example_message prio port bytes =
     \<lparr>tr_timestamp_usec = 1000, tr_priority = prio,
      tr_transfer_kind = CanardTransferKindMessage, tr_port_id = port,
      tr_remote_node_id = CANARD_NODE_ID_UNSET, tr_transfer_id = 1,
      tr_payload_size = length bytes, tr_payload = Some bytes\<rparr>"

definition example_fd_instance :: "(nat \<times> nat) CanardInstance" where
  "example_fd_instance =
     (canardInit example_allocate example_free (4096, 8))\<lparr>node_id := 42\<rparr>"

definition example_empty_message :: CanardTransfer where
  "example_empty_message = (example_message 4 2 [])\<lparr>tr_payload := None\<rparr>"

text \<open>The example instance with the calls of its allocator recorded.\<close>

definition logged_example_instance ::
  "nat \<Rightarrow> ((nat \<times> nat) \<times> MemoryEvent list) CanardInstance" where
  "logged_example_instance blocks =
     (canardInit (logged_allocate example_allocate) (logged_free example_free)
        ((4096, blocks), []))\<lparr>mtu_bytes := 8, node_id := 42\<rparr>"

text \<open>
  The payload of a queued frame is its body followed by the tail byte.  The frames
  of a transfer that is not yet complete are full frames without the
  end-of-transfer flag; a complete transfer is such a sequence followed by one frame
  with the flag.
\<close>

definition frame_body :: "CanardInternalTxQueueItem \<Rightarrow> 8 word list" where
  "frame_body f = butlast (tqi_payload f)"

definition frame_tail :: "CanardInternalTxQueueItem \<Rightarrow> 8 word" where
  "frame_tail f = last (tqi_payload f)"

definition frames_started ::
  "nat \<Rightarrow> CanardTransferID \<Rightarrow> CanardInternalTxQueueItem list \<Rightarrow> bool" where
  "frames_started mtu tid chain =
     (\<forall>i<length chain.
        tqi_payload (chain ! i) \<noteq> [] \<and>
        frame_tail (chain ! i) = makeTailByte (i = 0) False (even i) tid \<and>
        length (tqi_payload (chain ! i)) = Suc mtu \<and>
        tqi_payload_size (chain ! i) = Suc mtu)"

definition frames_complete ::
  "nat \<Rightarrow> CanardTransferID \<Rightarrow> CanardInternalTxQueueItem list \<Rightarrow> bool" where
  "frames_complete mtu tid chain =
     (chain \<noteq> [] \<and> frames_started mtu tid (butlast chain) \<and>
      tqi_payload (last chain) \<noteq> [] \<and>
      frame_tail (last chain) = makeTailByte (length chain = 1) True (odd (length chain)) tid \<and>
      length (tqi_payload (last chain)) = tqi_payload_size (last chain))"

text \<open>
  The fields of a CAN-ID as the specification lays them out, by bit positions: bit 25
  tells a service frame from a message frame, bit 24 is the anonymous flag of a message
  and the request flag of a service frame, bits 23 and (for messages) 7 are reserved,
  the subject-ID is in bits 8 to 20, the service-ID in bits 14 to 22, the destination
  node-ID of a service frame in bits 7 to 13.  The tail byte is the last byte of the
  frame's payload.
\<close>

definition spec_frame_tail :: "CanardFrame \<Rightarrow> 8 word" where
  "spec_frame_tail frame = bytes_at (fr_payload frame) ! (fr_payload_size frame - 1)"

definition spec_frame_kind :: "32 word \<Rightarrow> nat" where
  "spec_frame_kind can_id =
     (if \<not> bit can_id 25 then CanardTransferKindMessage
      else if bit can_id 24 then CanardTransferKindRequest else CanardTransferKindResponse)"

definition spec_frame_port :: "32 word \<Rightarrow> CanardPortID" where
  "spec_frame_port can_id =
     (if bit can_id 25 then ucast (take_bit 9 (drop_bit 14 can_id))
      else ucast (take_bit 13 (drop_bit 8 can_id)))"

definition spec_frame_destination :: "32 word \<Rightarrow> CanardNodeID" where
  "spec_frame_destination can_id =
     (if bit can_id 25 then ucast (take_bit 7 (drop_bit 7 can_id)) else CANARD_NODE_ID_UNSET)"

definition spec_frame_anonymous :: "32 word \<Rightarrow> bool" where
  "spec_frame_anonymous can_id = (\<not> bit can_id 25 \<and> bit can_id 24)"

definition spec_frame_unparseable :: "CanardFrame \<Rightarrow> bool" where
  "spec_frame_unparseable frame =
     (fr_payload_size frame = 0
      \<or> bit (fr_extended_can_id frame) 23
      \<or> (\<not> bit (fr_extended_can_id frame) 25 \<and> bit (fr_extended_can_id frame) 7)
      \<or> (tail_start_of_transfer (spec_frame_tail frame) \<and> \<not> tail_toggle (spec_frame_tail frame))
      \<or> (spec_frame_anonymous (fr_extended_can_id frame) \<and>
          \<not> (tail_start_of_transfer (spec_frame_tail frame) \<and>
             tail_end_of_transfer (spec_frame_tail frame))))"

definition spec_frame_misaddressed :: "'m CanardInstance \<Rightarrow> CanardFrame \<Rightarrow> bool" where
  "spec_frame_misaddressed ins frame =
     (spec_frame_destination (fr_extended_can_id frame) \<noteq> CANARD_NODE_ID_UNSET \<and>
      spec_frame_destination (fr_extended_can_id frame) \<noteq> node_id ins)"

definition spec_frame_subscribed :: "'m CanardInstance \<Rightarrow> CanardFrame \<Rightarrow> bool" where
  "spec_frame_subscribed ins frame =
     (spec_frame_port (fr_extended_can_id frame) \<in>
        sub_port_id ` set (rx_subscriptions ins (spec_frame_kind (fr_extended_can_id frame))))"

definition spec_rx_ignored :: "'m CanardInstance \<Rightarrow> CanardFrame \<Rightarrow> bool" where
  "spec_rx_ignored ins frame =
     (spec_frame_unparseable frame \<or> spec_frame_misaddressed ins frame \<or>
      \<not> spec_frame_subscribed ins frame)"

text \<open>The arguments that \<^verbatim>\<open>canardRxAccept\<close> does not reject as invalid.\<close>

definition rx_frame_argument_ok :: "CanardFrame \<Rightarrow> bool" where
  "rx_frame_argument_ok frame =
     (fr_extended_can_id frame \<le> CAN_EXT_ID_MASK \<and>
      (fr_payload frame \<noteq> None \<or> fr_payload_size frame = 0))"

text \<open>
  A receiver for the examples: a new instance subscribed to messages on port 7168 with
  the given payload limit; and an output transfer with all fields zero.
\<close>

definition example_receiver :: "nat \<Rightarrow> (nat \<times> nat) CanardInstance" where
  "example_receiver payload_size_bytes_max =
     (case canardRxSubscribe (Some (canardInit example_allocate example_free (8192, 8)))
             CanardTransferKindMessage 7168 payload_size_bytes_max 2000000
             (Some \<lparr>sub_port_id = 0, sub_payload_size_bytes_max = 0,
                    sub_transfer_id_timeout_usec = 0, sub_sessions = []\<rparr>) of
        (r, Some ins) \<Rightarrow> ins
      | (r, None) \<Rightarrow> canardInit example_allocate example_free (8192, 8))"

definition blank_transfer :: CanardTransfer where
  "blank_transfer =
     \<lparr>tr_timestamp_usec = 0, tr_priority = 0, tr_transfer_kind = 0, tr_port_id = 0,
      tr_remote_node_id = 0, tr_transfer_id = 0, tr_payload_size = 0, tr_payload = None\<rparr>"

definition blank_frame :: CanardFrame where
  "blank_frame =
     \<lparr>fr_timestamp_usec = 0, fr_extended_can_id = 0, fr_payload_size = 0, fr_payload = None\<rparr>"

section \<open>Properties of the transfer CRC\<close>

lemma crcAddByte_loop_unfold:
  "crcAddByte_loop i out = (if i < 8 then crcAddByte_loop (Suc i) (crc_shift out) else out)"
  by (subst crcAddByte_loop.simps) (simp add: crc_shift_def BITS_PER_BYTE_def)

lemma crcAddByte_loop_funpow: "i \<le> 8 \<Longrightarrow> crcAddByte_loop i out = (crc_shift ^^ (8 - i)) out"
proof (induction "8 - i" arbitrary: i out)
  case 0
  then show ?case by (subst crcAddByte_loop_unfold) simp
next
  case (Suc k)
  then have lt: "i < 8" and k: "k = 8 - Suc i" and le: "Suc i \<le> 8" by simp_all
  have e: "8 - i = Suc (8 - Suc i)" using lt by simp
  have "crcAddByte_loop i out = crcAddByte_loop (Suc i) (crc_shift out)"
    by (subst crcAddByte_loop_unfold) (simp add: lt)
  also have "\<dots> = (crc_shift ^^ (8 - Suc i)) (crc_shift out)"
    by (rule Suc.hyps(1) [OF k le])
  also have "\<dots> = (crc_shift ^^ (8 - i)) out"
    by (subst e) (simp only: funpow_Suc_right o_apply)
  finally show ?case .
qed

lemma unat_lt_65536: "unat (w :: 16 word) < 65536"
  using unsigned_less [of w, where 'a = nat] by simp

lemma unat_lt_256: "unat (b :: 8 word) < 256"
  using unsigned_less [of b, where 'a = nat] by simp

lemma odd_div_msb: "n < 65536 \<Longrightarrow> odd (n div 32768) = (32768 \<le> (n::nat))"
proof (cases "32768 \<le> n")
  case True
  assume "n < 65536"
  with True have "n div 32768 = 1" by arith
  with True show ?thesis by simp
next
  case False
  then show ?thesis by simp
qed

lemma msb_test: "(w :: 16 word) AND 0x8000 \<noteq> 0 \<longleftrightarrow> 32768 \<le> unat w"
proof -
  have "(w AND 2 ^ 15 = 0) = (\<not> bit w 15)"
    by (rule and_exp_eq_0_iff_not_bit)
  moreover have "bit w 15 = bit (unat w) 15"
    by (simp add: bit_unsigned_iff)
  moreover have "bit (unat w) 15 = odd (unat w div 2 ^ 15)"
    by (rule bit_iff_odd)
  moreover have "odd (unat w div 2 ^ 15) = (32768 \<le> unat w)"
    using odd_div_msb [OF unat_lt_65536 [of w]] by simp
  ultimately show ?thesis by simp
qed

lemma unat_shift: "unat (push_bit 1 (w::16 word)) = (unat w * 2) mod 65536"
proof -
  have "unat (w * 2) = unat w * unat (2::16 word) mod 2 ^ LENGTH(16)"
    by (rule unat_word_ariths)
  then show ?thesis by simp
qed

lemma unat_ucast8: "unat (push_bit 8 (ucast (b::8 word) :: 16 word)) = unat b * 256"
proof -
  have "unat (ucast b * (256 :: 16 word)) = unat (ucast b :: 16 word) * unat (256::16 word) mod 2 ^ LENGTH(16)"
    by (rule unat_word_ariths)
  moreover have "unat (ucast b :: 16 word) = unat b"
    using unat_lt_256 [of b] by (simp add: unsigned_ucast_eq take_bit_nat_eq_self)
  moreover have "push_bit 8 (ucast b :: 16 word) = ucast b * 256"
    by (simp add: push_bit_eq_mult)
  ultimately show ?thesis using unat_lt_256 [of b] by simp
qed

lemma unat_crc_shift: "unat (crc_shift w) = spec_crc_iteration (unat w)"
  unfolding crc_shift_def spec_crc_iteration_def msb_test
  by (simp only: unat_shift unsigned_xor_eq if_distrib [of unat]) simp

lemma unat_crc_shift_funpow: "unat ((crc_shift ^^ n) w) = (spec_crc_iteration ^^ n) (unat w)"
  by (induction n) (simp_all add: unat_crc_shift)

lemma xor_lt_65536:
  assumes "a < 65536" and "b < 65536"
  shows "a XOR b < (65536::nat)"
proof -
  have "take_bit 16 (a XOR b) = a XOR b"
    using assms by (simp add: take_bit_xor take_bit_nat_eq_self)
  then have "a XOR b < 2 ^ 16"
    by (simp only: take_bit_nat_eq_self_iff)
  then show ?thesis by simp
qed

lemma unat_crcAddByte: "unat (crcAddByte crc b) = spec_crc_add_byte (unat crc) (unat b)"
proof -
  have "unat crc XOR unat b * 256 < 65536"
    using unat_lt_256 [of b] by (intro xor_lt_65536 unat_lt_65536) simp
  moreover have "unat (crc XOR push_bit 8 (ucast b)) = unat crc XOR unat b * 256"
    by (simp only: unsigned_xor_eq unat_ucast8)
  ultimately show ?thesis
    by (simp only: crcAddByte_def spec_crc_add_byte_def BITS_PER_BYTE_def crcAddByte_loop_funpow
      unat_crc_shift_funpow) simp
qed


lemma crcAdd_loop_foldl:
  "sz - i \<le> length p \<Longrightarrow> crcAdd_loop i sz p out = foldl crcAddByte out (take (sz - i) p)"
proof (induction i sz p out rule: crcAdd_loop.induct)
  case (1 i sz p out)
  show ?case
  proof (cases "i < sz")
    case True
    with 1(2) obtain b bs where p: "p = b # bs" by (cases p) auto
    from True have e: "sz - i = Suc (sz - (i + 1))" by simp
    from True 1(2) p have "sz - (i + 1) \<le> length (tl p)" by simp
    from 1(1) [OF True this] True show ?thesis
      by (subst crcAdd_loop.simps) (simp add: p e del: crcAdd_loop.simps)
  next
    case False
    then show ?thesis by (subst crcAdd_loop.simps) simp
  qed
qed

lemma crcAdd_foldl: "sz \<le> length data \<Longrightarrow> crcAdd crc sz data = foldl crcAddByte crc (take sz data)"
  using crcAdd_loop_foldl [of sz 0 data crc] by (simp add: crcAdd_def)

lemma crcAdd_all: "crcAdd crc (length data) data = foldl crcAddByte crc data"
  by (simp add: crcAdd_foldl)

lemma crcAdd_append:
  "crcAdd crc (length (xs @ ys)) (xs @ ys) = crcAdd (crcAdd crc (length xs) xs) (length ys) ys"
  by (simp only: crcAdd_all foldl_append)

lemma spec_crc_iteration_shift:
  "n * 2 ^ k < 65536 \<Longrightarrow> (spec_crc_iteration ^^ k) n = n * 2 ^ k"
proof (induction k)
  case 0
  then show ?case by simp
next
  case (Suc k)
  then have lt: "n * 2 ^ k < 32768" by simp
  then have "(spec_crc_iteration ^^ k) n = n * 2 ^ k" using Suc.IH by simp
  then have "(spec_crc_iteration ^^ Suc k) n = spec_crc_iteration (n * 2 ^ k)" by simp
  also have "\<dots> = n * 2 ^ Suc k"
    using lt by (simp add: spec_crc_iteration_def mult.assoc)
  finally show ?case .
qed

lemma byte_mask: "(0xFF :: 16 word) = mask 8"
  by (simp add: mask_eq_exp_minus_1)

lemma crc_low_byte: "(c::16 word) XOR push_bit 8 (ucast (ucast (drop_bit 8 c) :: 8 word)) = c AND 0xFF"
  unfolding byte_mask
  by (rule bit_word_eqI) (auto simp add: bit_simps)

lemma crc_low_byte_ucast: "ucast (ucast ((c::16 word) AND 0xFF) :: 8 word) = c AND 0xFF"
  unfolding byte_mask
  by (rule bit_word_eqI) (auto simp add: bit_simps)

lemma crc_shift8_low: "(crc_shift ^^ 8) (c AND 0xFF) = push_bit 8 (c AND 0xFF)"
proof -
  have lt: "unat (c AND 0xFF) < 256"
    using word_and_le1 [of c "0xFF"] by (simp add: word_le_nat_alt)
  then have "unat ((crc_shift ^^ 8) (c AND 0xFF)) = unat (c AND 0xFF) * 2 ^ 8"
    by (simp only: unat_crc_shift_funpow) (rule spec_crc_iteration_shift, simp)
  moreover have "unat (push_bit 8 (c AND 0xFF)) = unat (c AND 0xFF) * 2 ^ 8"
  proof -
    have "unat ((c AND 0xFF) * 256) = unat (c AND 0xFF) * unat (256::16 word) mod 2 ^ LENGTH(16)"
      by (rule unat_word_ariths)
    moreover have "push_bit 8 (c AND 0xFF) = (c AND 0xFF) * 256"
      by (simp only: push_bit_eq_mult) simp
    ultimately show ?thesis using lt by simp
  qed
  ultimately show ?thesis by (simp only: word_unat_eq_iff)
qed

lemma crc_shift8_zero: "(crc_shift ^^ 8) 0 = 0"
  by (simp add: eval_nat_numeral crc_shift_def)

lemma crc_residue_step:
  "crcAddByte (crcAddByte c (ucast (drop_bit BITS_PER_BYTE c))) (ucast (c AND BYTE_MAX)) = 0"
proof -
  have "crcAddByte c (ucast (drop_bit 8 c)) = push_bit 8 (c AND 0xFF)"
    by (simp only: crcAddByte_def BITS_PER_BYTE_def crcAddByte_loop_funpow crc_low_byte) (simp add: crc_shift8_low)
  then show ?thesis
    by (simp only: crcAddByte_def BITS_PER_BYTE_def BYTE_MAX_def crcAddByte_loop_funpow crc_low_byte_ucast)
       (simp add: crc_shift8_zero)
qed


lemma unat_crcAdd_spec:
  "unat (foldl crcAddByte crc bytes) = spec_crc_add (unat crc) (map unat bytes)"
  unfolding spec_crc_add_def
  by (induction bytes arbitrary: crc) (simp_all add: unat_crcAddByte)

lemma crc_check_value:
  "crcAdd CRC_INITIAL 9 [0x31, 0x32, 0x33, 0x34, 0x35, 0x36, 0x37, 0x38, 0x39] = 0x29B1"
  by code_simp

text \<open>
  Claim C6.  \<^verbatim>\<open>crcAddByte\<close> is the CRC-CCITT step of the specification: read as
  unsigned numbers, its result is \<open>crc XOR (b << 8)\<close> followed by eight iterations that
  shift left by one and XOR \<open>0x1021\<close> when the most significant bit was set, everything
  modulo \<open>2\<^sup>1\<^sup>6\<close>.  \<^verbatim>\<open>crcAdd\<close> over a buffer is the left fold of \<^verbatim>\<open>crcAddByte\<close> over
  its bytes and agrees with the specification's fold.  The initial value is \<open>0xFFFF\<close>;
  that there is neither reflection nor a final XOR shows in the check value of the
  ASCII string \<^verbatim>\<open>123456789\<close>, which is \<open>0x29B1\<close>, the value of the unreflected CCITT CRC
  with initial value \<open>0xFFFF\<close> and no output XOR.
\<close>

theorem crc_ccitt_refinement:
  "unat (crcAddByte crc b) = spec_crc_add_byte (unat crc) (unat b)
   \<and> crcAdd crc (length bytes) bytes = foldl crcAddByte crc bytes
   \<and> unat (crcAdd crc (length bytes) bytes) = spec_crc_add (unat crc) (map unat bytes)
   \<and> unat CRC_INITIAL = 0xFFFF
   \<and> crcAdd CRC_INITIAL 9 [0x31, 0x32, 0x33, 0x34, 0x35, 0x36, 0x37, 0x38, 0x39] = 0x29B1"
  by (simp only: unat_crcAddByte crcAdd_all unat_crcAdd_spec crc_check_value) (simp add: CRC_INITIAL_def)

lemma crcAdd_fragments:
  "foldl (\<lambda>crc f. crcAdd crc (length f) f) crc fragments
     = crcAdd crc (length (concat fragments)) (concat fragments)"
proof (induction fragments arbitrary: crc)
  case Nil
  show ?case by (simp add: crcAdd_foldl)
next
  case (Cons f fs)
  have "crcAdd crc (length (f @ concat fs)) (f @ concat fs)
          = crcAdd (crcAdd crc (length f) f) (length (concat fs)) (concat fs)"
    by (rule crcAdd_append)
  with Cons.IH [of "crcAdd crc (length f) f"] show ?case by simp
qed

lemma crc_residue:
  "crcAdd crc (length (p @ [ucast (drop_bit BITS_PER_BYTE (crcAdd crc (length p) p)),
                            ucast (crcAdd crc (length p) p AND BYTE_MAX)]))
     (p @ [ucast (drop_bit BITS_PER_BYTE (crcAdd crc (length p) p)),
           ucast (crcAdd crc (length p) p AND BYTE_MAX)]) = 0"
  by (simp only: crcAdd_all foldl_append foldl.simps crc_residue_step)

text \<open>
  Claim C7.  Let \<open>hi\<close> and \<open>lo\<close> be the high and the low byte of the CRC of a byte
  sequence \<open>p\<close>, computed from the initial value.  Folding the CRC over \<open>p\<close> followed by
  \<open>hi\<close> and \<open>lo\<close> gives zero, and so does folding it, fragment after fragment, over any
  list of fragments whose concatenation is that sequence.
\<close>

theorem crc_residue_zero:
  assumes "concat fragments =
             p @ [ucast (drop_bit BITS_PER_BYTE (crcAdd CRC_INITIAL (length p) p)),
                  ucast (crcAdd CRC_INITIAL (length p) p AND BYTE_MAX)]"
  shows "crcAdd CRC_INITIAL (length (concat fragments)) (concat fragments) = 0
         \<and> foldl (\<lambda>crc f. crcAdd crc (length f) f) CRC_INITIAL fragments = 0"
  unfolding crcAdd_fragments assms by (simp only: crc_residue)

theorem crc_residue_zero_witness:
  "concat [[0x5A, 0x01], [0x02 :: 8 word, 0x46], [0xE0]] =
     [0x5A, 0x01, 0x02] @ [ucast (drop_bit BITS_PER_BYTE (crcAdd CRC_INITIAL (length [0x5A, 0x01, 0x02 :: 8 word]) [0x5A, 0x01, 0x02])),
                  ucast (crcAdd CRC_INITIAL (length [0x5A, 0x01, 0x02 :: 8 word]) [0x5A, 0x01, 0x02] AND BYTE_MAX)]
   \<and> crcAdd CRC_INITIAL 5 [0x5A, 0x01, 0x02, 0x46, 0xE0] = 0
   \<and> crcAdd (crcAdd (crcAdd CRC_INITIAL 2 [0x5A, 0x01]) 2 [0x02, 0x46]) 1 [0xE0] = 0"
proof -
  have c: "crcAdd CRC_INITIAL (length [0x5A, 0x01, 0x02 :: 8 word]) [0x5A, 0x01, 0x02] = 0x46E0"
    by code_simp
  have h: "concat [[0x5A, 0x01], [0x02 :: 8 word, 0x46], [0xE0]] =
     [0x5A, 0x01, 0x02] @ [ucast (drop_bit BITS_PER_BYTE (crcAdd CRC_INITIAL (length [0x5A, 0x01, 0x02 :: 8 word]) [0x5A, 0x01, 0x02])),
                  ucast (crcAdd CRC_INITIAL (length [0x5A, 0x01, 0x02 :: 8 word]) [0x5A, 0x01, 0x02] AND BYTE_MAX)]"
    unfolding c by (simp add: BITS_PER_BYTE_def BYTE_MAX_def)
  from crc_residue_zero [OF h] h show ?thesis by (simp add: eval_nat_numeral)
qed

section \<open>Rejected arguments of the transmission\<close>

lemma pushSingleFrameTransfer_not_invalid:
  "fst (pushSingleFrameTransfer ins d c t n p) \<noteq> Inl CANARD_ERROR_INVALID_ARGUMENT"
  by (simp add: pushSingleFrameTransfer_def Let_def split: prod.splits option.splits)

lemma pushMultiFrameTransfer_not_invalid:
  "pushMultiFrameTransfer ins mtu d c t n p = Some (r, ins1) \<Longrightarrow> r \<noteq> Inl CANARD_ERROR_INVALID_ARGUMENT"
  by (auto simp add: pushMultiFrameTransfer_def Let_def split: prod.splits option.splits if_splits)

lemma makeCANID_invalid_iff:
  assumes "node_id_configured ins" and "tr_payload tr \<noteq> None \<or> tr_payload_size tr = 0"
  shows "(\<exists>e. makeCANID tr (node_id ins) (getPresentationLayerMTU ins) = Inl e) \<longleftrightarrow> spec_push_invalid ins tr"
  using assms
  unfolding makeCANID_def spec_push_invalid_def node_id_configured_def spec_service_kind_def
    CANARD_NODE_ID_UNSET_def CANARD_NODE_ID_MAX_def CANARD_SUBJECT_ID_MAX_def CANARD_SERVICE_ID_MAX_def
    CANARD_PRIORITY_MAX_def CanardTransferKindMessage_def CanardTransferKindRequest_def CanardTransferKindResponse_def
  by (auto simp add: Let_def not_le not_less split: sum.splits if_splits)

lemma makeCANID_error: "makeCANID tr n m = Inl e \<Longrightarrow> e = CANARD_ERROR_INVALID_ARGUMENT"
  unfolding makeCANID_def by (auto simp add: Let_def split: sum.splits if_splits)

lemma canardTxPush_invalid_cases:
  "canardTxPush (Some ins) (Some tr) = Some (Inl CANARD_ERROR_INVALID_ARGUMENT, ins') \<longleftrightarrow>
     ins' = Some ins \<and>
     ((tr_payload tr = None \<and> tr_payload_size tr \<noteq> 0) \<or>
      (\<exists>e. makeCANID tr (node_id ins) (getPresentationLayerMTU ins) = Inl e))"
proof (cases "tr_payload tr \<noteq> None \<or> 0 = tr_payload_size tr")
  case False
  then show ?thesis by (auto simp add: canardTxPush_def)
next
  case True
  show ?thesis
  proof (cases "makeCANID tr (node_id ins) (getPresentationLayerMTU ins)")
    case (Inl e)
    with True makeCANID_error [OF Inl] show ?thesis
      by (auto simp add: canardTxPush_def Let_def)
  next
    case (Inr can_id)
    show ?thesis
    proof (cases "tr_payload_size tr \<le> getPresentationLayerMTU ins")
      case single: True
      with True Inr pushSingleFrameTransfer_not_invalid
        [of ins "tr_timestamp_usec tr" can_id "tr_transfer_id tr" "tr_payload_size tr" "tr_payload tr"]
      show ?thesis
        by (auto simp add: canardTxPush_def Let_def split: prod.splits)
    next
      case multi: False
      with True Inr pushMultiFrameTransfer_not_invalid
        [of ins "getPresentationLayerMTU ins" "tr_timestamp_usec tr" can_id "tr_transfer_id tr" "tr_payload_size tr" "tr_payload tr"]
      show ?thesis
        by (auto simp add: canardTxPush_def Let_def split: prod.splits option.splits)
    qed
  qed
qed

text \<open>
  Claim C5.  For an instance whose node-ID is a valid node-ID or \<open>UNSET\<close>,
  \<^verbatim>\<open>canardTxPush\<close> returns the invalid-argument error exactly when the instance or
  the transfer pointer is \<^verbatim>\<open>NULL\<close>, or the payload pointer is \<^verbatim>\<open>NULL\<close> with a
  non-zero size, or the transfer is a message with a remote node-ID other than \<open>UNSET\<close>
  or a port-ID above 8191, or a request or response with a remote node-ID that is
  \<open>UNSET\<close> or above 127 or a port-ID above 511, or the local node-ID is \<open>UNSET\<close> and the
  transfer is a service transfer or does not fit one frame, or the priority exceeds
  7, or the kind is outside the enumeration.  Whenever it returns that error the
  instance, and so the queue, is as it was.
\<close>

theorem canardTxPush_invalid_argument:
  assumes "instance_configured ins_ptr"
  shows "((\<exists>ins'. canardTxPush ins_ptr transfer_ptr = Some (Inl CANARD_ERROR_INVALID_ARGUMENT, ins'))
            \<longleftrightarrow> spec_push_rejected ins_ptr transfer_ptr)
         \<and> (\<forall>ins'. canardTxPush ins_ptr transfer_ptr = Some (Inl CANARD_ERROR_INVALID_ARGUMENT, ins')
               \<longrightarrow> ins' = ins_ptr)"
proof (cases ins_ptr)
  case None
  then show ?thesis by (simp add: canardTxPush_def spec_push_rejected_def)
next
  case (Some ins)
  note ins = this
  show ?thesis
  proof (cases transfer_ptr)
    case None
    with ins show ?thesis by (simp add: canardTxPush_def spec_push_rejected_def)
  next
    case (Some tr)
    from assms ins have conf: "node_id_configured ins" by (simp add: instance_configured_def)
    show ?thesis
    proof (cases "tr_payload tr \<noteq> None \<or> tr_payload_size tr = 0")
      case True
      from makeCANID_invalid_iff [OF conf True] True ins Some show ?thesis
        by (simp only: canardTxPush_invalid_cases spec_push_rejected_def) auto
    next
      case False
      then have "spec_push_invalid ins tr" by (simp add: spec_push_invalid_def)
      with False ins Some show ?thesis
        by (simp only: canardTxPush_invalid_cases spec_push_rejected_def) auto
    qed
  qed
qed


theorem canardTxPush_invalid_argument_witness:
  "instance_configured (Some (canardInit example_allocate example_free (4096, 8)))
   \<and> spec_push_rejected (Some (canardInit example_allocate example_free (4096, 8)))
         (Some \<lparr>tr_timestamp_usec = 0, tr_priority = 0,
                 tr_transfer_kind = CanardTransferKindMessage, tr_port_id = 100,
                 tr_remote_node_id = CANARD_NODE_ID_UNSET, tr_transfer_id = 0,
                 tr_payload_size = 64, tr_payload = Some (replicate 64 0)\<rparr>)
   \<and> canardTxPush (Some (canardInit example_allocate example_free (4096, 8)))
         (Some \<lparr>tr_timestamp_usec = 0, tr_priority = 0,
                 tr_transfer_kind = CanardTransferKindMessage, tr_port_id = 100,
                 tr_remote_node_id = CANARD_NODE_ID_UNSET, tr_transfer_id = 0,
                 tr_payload_size = 64, tr_payload = Some (replicate 64 0)\<rparr>)
       = Some (Inl CANARD_ERROR_INVALID_ARGUMENT,
               Some (canardInit example_allocate example_free (4096, 8)))"
proof -
  let ?I = "canardInit example_allocate example_free (4096 :: nat, 8 :: nat)"
  let ?T = "\<lparr>tr_timestamp_usec = 0, tr_priority = 0,
                 tr_transfer_kind = CanardTransferKindMessage, tr_port_id = 100,
                 tr_remote_node_id = CANARD_NODE_ID_UNSET, tr_transfer_id = 0,
                 tr_payload_size = 64, tr_payload = Some (replicate 64 0)\<rparr>"
  have c: "instance_configured (Some ?I)"
    by (simp add: instance_configured_def node_id_configured_def canardInit_def)
  have m: "getPresentationLayerMTU ?I = 63"
    by (simp add: getPresentationLayerMTU_def canardInit_def CANARD_MTU_CAN_FD_def
        CANARD_MTU_CAN_CLASSIC_def CanardCANLengthToDLC_def CanardCANDLCToLength_def)
  have n: "node_id ?I = CANARD_NODE_ID_UNSET"
    by (simp add: canardInit_def)
  have r: "spec_push_rejected (Some ?I) (Some ?T)"
    by (simp add: spec_push_rejected_def spec_push_invalid_def m n)
  from canardTxPush_invalid_argument [OF c, of "Some ?T"] r c show ?thesis
    by blast
qed

section \<open>Removing the head of the transmission queue\<close>

text \<open>
  Claim C10.  \<^verbatim>\<open>canardTxPop\<close> with a \<^verbatim>\<open>NULL\<close> instance or an empty queue changes
  nothing.  Otherwise the queue loses exactly its head, the head's block is handed to
  the instance's free function, and every other field of the instance and the rest
  of the queue stay as they were.
\<close>

theorem canardTxPop_effect:
  "canardTxPop None = (None :: 'm CanardInstance option)
   \<and> (tx_queue ins = [] \<longrightarrow> canardTxPop (Some ins) = Some ins)
   \<and> (\<forall>head rest. tx_queue ins = head # rest \<longrightarrow>
        canardTxPop (Some ins) =
          Some (ins\<lparr>memory := memory_free ins (memory ins) (Some (tqi_addr head)),
                    tx_queue := rest\<rparr>))"
  by (simp add: canardTxPop_def)

theorem canardTxPop_effect_witness:
  "tx_queue (canardInit example_allocate example_free (4096, 8)) = []
   \<and> canardTxPop (Some (canardInit example_allocate example_free (4096, 8)))
       = Some (canardInit example_allocate example_free (4096, 8))
   \<and> canardTxPop (Some ((canardInit example_allocate example_free (4096, 8))
         \<lparr>tx_queue :=
            [\<lparr>tqi_addr = 64, tqi_deadline_usec = 5, tqi_payload_size = 2, tqi_id = 256,
              tqi_payload = [1, 0xE0]\<rparr>,
             \<lparr>tqi_addr = 128, tqi_deadline_usec = 7, tqi_payload_size = 2, tqi_id = 512,
              tqi_payload = [2, 0xE1]\<rparr>]\<rparr>))
       = Some ((canardInit example_allocate example_free (4096, 8))
         \<lparr>memory := (4096, 9),
          tx_queue :=
            [\<lparr>tqi_addr = 128, tqi_deadline_usec = 7, tqi_payload_size = 2, tqi_id = 512,
              tqi_payload = [2, 0xE1]\<rparr>]\<rparr>)"
proof -
  let ?I = "canardInit example_allocate example_free (4096 :: nat, 8 :: nat)"
  let ?a = "\<lparr>tqi_addr = 64, tqi_deadline_usec = 5, tqi_payload_size = 2, tqi_id = 256,
              tqi_payload = [1, 0xE0]\<rparr>"
  let ?b = "\<lparr>tqi_addr = 128, tqi_deadline_usec = 7, tqi_payload_size = 2, tqi_id = 512,
              tqi_payload = [2, 0xE1]\<rparr>"
  have e: "tx_queue ?I = []"
    by (simp add: canardInit_def)
  have q: "tx_queue (?I\<lparr>tx_queue := [?a, ?b]\<rparr>) = ?a # [?b]"
    by simp
  have f: "memory_free (?I\<lparr>tx_queue := [?a, ?b]\<rparr>) (memory (?I\<lparr>tx_queue := [?a, ?b]\<rparr>))
             (Some (tqi_addr ?a)) = (4096, 9)"
    by (simp add: canardInit_def example_free_def)
  from canardTxPop_effect [of ?I] e have 1: "canardTxPop (Some ?I) = Some ?I"
    by blast
  from canardTxPop_effect [of "?I\<lparr>tx_queue := [?a, ?b]\<rparr>"] q
  have "canardTxPop (Some (?I\<lparr>tx_queue := [?a, ?b]\<rparr>)) =
          Some (?I\<lparr>tx_queue := [?a, ?b],
                    memory := memory_free (?I\<lparr>tx_queue := [?a, ?b]\<rparr>)
                                (memory (?I\<lparr>tx_queue := [?a, ?b]\<rparr>)) (Some (tqi_addr ?a)),
                    tx_queue := [?b]\<rparr>)"
    by blast
  then have 2: "canardTxPop (Some (?I\<lparr>tx_queue := [?a, ?b]\<rparr>)) =
          Some (?I\<lparr>memory := (4096, 9), tx_queue := [?b]\<rparr>)"
    unfolding f by simp
  from e 1 2 show ?thesis by blast
qed

section \<open>The order of the transmission queue\<close>

lemma findTxQueueSupremum_loop_takeWhile:
  "findTxQueueSupremum_loop can_id (out # q) i = i + length (takeWhile (\<lambda>x. tqi_id x \<le> can_id) q)"
  by (induction q arbitrary: out i) auto

lemma insert_after_supremum:
  "insert_after (findTxQueueSupremum ins can_id) chain (tx_queue ins) =
     takeWhile (\<lambda>x. tqi_id x \<le> can_id) (tx_queue ins) @ chain @ dropWhile (\<lambda>x. tqi_id x \<le> can_id) (tx_queue ins)"
proof (cases "tx_queue ins")
  case Nil
  then show ?thesis by (simp add: insert_after_def findTxQueueSupremum_def)
next
  case (Cons out q)
  show ?thesis
  proof (cases "tqi_id out > can_id")
    case True
    then have "\<not> tqi_id out \<le> can_id" by simp
    with Cons True show ?thesis by (simp add: insert_after_def findTxQueueSupremum_def)
  next
    case False
    then have le: "tqi_id out \<le> can_id" by simp
    have t: "take (length (takeWhile (\<lambda>x. tqi_id x \<le> can_id) q)) q = takeWhile (\<lambda>x. tqi_id x \<le> can_id) q"
      by (metis takeWhile_eq_take)
    have d: "drop (length (takeWhile (\<lambda>x. tqi_id x \<le> can_id) q)) q = dropWhile (\<lambda>x. tqi_id x \<le> can_id) q"
      by (metis dropWhile_eq_drop)
    from Cons False le t d show ?thesis
      by (simp add: insert_after_def findTxQueueSupremum_def findTxQueueSupremum_loop_takeWhile)
  qed
qed

section \<open>The frames of a transfer\<close>

lemma list_all_uptD: "list_all P [a..<b] \<Longrightarrow> a \<le> x \<Longrightarrow> x < b \<Longrightarrow> P x"
  by (simp add: list_all_iff)

lemma roundFramePayloadSizeUp_table:
  "list_all (\<lambda>x. x \<le> roundFramePayloadSizeUp x \<and> roundFramePayloadSizeUp x \<le> 64 \<and>
                 (x \<le> 8 \<longrightarrow> roundFramePayloadSizeUp x = x)) [0..<65]"
  by code_simp

lemma roundFramePayloadSizeUp_ge: "x \<le> 64 \<Longrightarrow> x \<le> roundFramePayloadSizeUp x"
  using list_all_uptD [OF roundFramePayloadSizeUp_table, of x] by simp

lemma roundFramePayloadSizeUp_le: "x \<le> 64 \<Longrightarrow> roundFramePayloadSizeUp x \<le> 64"
  using list_all_uptD [OF roundFramePayloadSizeUp_table, of x] by simp

lemma roundFramePayloadSizeUp_small: "x \<le> 8 \<Longrightarrow> roundFramePayloadSizeUp x = x"
  using list_all_uptD [OF roundFramePayloadSizeUp_table, of x] by simp

lemma DLC_table_range:
  "list_all (\<lambda>x. 8 \<le> CanardCANDLCToLength ! (CanardCANLengthToDLC ! x) \<and>
                 CanardCANDLCToLength ! (CanardCANLengthToDLC ! x) \<le> 64) [8..<65]"
  by code_simp

lemma getPresentationLayerMTU_range:
  "7 \<le> getPresentationLayerMTU ins \<and> getPresentationLayerMTU ins \<le> 63"
proof -
  have l: "length CanardCANLengthToDLC = 65" by (simp add: CanardCANLengthToDLC_def)
  show ?thesis
  proof (cases "mtu_bytes ins < 8")
    case True
    then show ?thesis by (simp add: getPresentationLayerMTU_def CANARD_MTU_CAN_CLASSIC_def)
  next
    case False
    show ?thesis
    proof (cases "mtu_bytes ins \<le> 64")
      case True
      with False list_all_uptD [OF DLC_table_range, of "mtu_bytes ins"]
      have "8 \<le> CanardCANDLCToLength ! (CanardCANLengthToDLC ! mtu_bytes ins) \<and>
            CanardCANDLCToLength ! (CanardCANLengthToDLC ! mtu_bytes ins) \<le> 64"
        by simp
      with True False show ?thesis
        by (simp add: getPresentationLayerMTU_def CANARD_MTU_CAN_CLASSIC_def l Let_def) arith
    next
      case big: False
      from list_all_uptD [OF DLC_table_range, of 64]
      have "8 \<le> CanardCANDLCToLength ! (CanardCANLengthToDLC ! 64) \<and>
            CanardCANDLCToLength ! (CanardCANLengthToDLC ! 64) \<le> 64"
        by simp
      with big False show ?thesis
        by (simp add: getPresentationLayerMTU_def CANARD_MTU_CAN_CLASSIC_def l Let_def) arith
    qed
  qed
qed

lemma pushMultiFrameTransfer_padding_eq:
  "pushMultiFrameTransfer_padding fps buf fo crc =
     (buf @ replicate (fps - 2 - fo) PADDING_BYTE, fo + (fps - 2 - fo),
      foldl crcAddByte crc (replicate (fps - 2 - fo) PADDING_BYTE))"
proof (induction fps buf fo crc rule: pushMultiFrameTransfer_padding.induct)
  case (1 fps buf fo crc)
  show ?case
  proof (cases "fo + CRC_SIZE_BYTES < fps")
    case True
    then have e: "fps - 2 - fo = Suc (fps - 2 - (fo + 1))" by (simp add: CRC_SIZE_BYTES_def)
    have step: "pushMultiFrameTransfer_padding fps buf fo crc =
                pushMultiFrameTransfer_padding fps (buf @ [PADDING_BYTE]) (fo + 1) (crcAddByte crc PADDING_BYTE)"
      using True by (subst pushMultiFrameTransfer_padding.simps) simp
    show ?thesis unfolding step 1 [OF True] e by simp
  next
    case False
    then show ?thesis
      by (subst pushMultiFrameTransfer_padding.simps) (simp add: CRC_SIZE_BYTES_def)
  qed
qed

lemma frame_full:
  assumes "offset < psz" and "mtu \<le> psz - offset" and "0 < mtu"
  shows "pushMultiFrameTransfer_frame (Suc mtu) tid psz offset crc sot tg ptr =
           (take mtu ptr @ [makeTailByte sot False tg tid], offset + mtu, crc, drop mtu ptr)"
  using assms
  by (auto simp add: pushMultiFrameTransfer_frame_def Let_def pushMultiFrameTransfer_padding_eq
      CRC_SIZE_BYTES_def)

lemma frame_with_crc_hi:
  assumes "offset < psz" and "psz - offset + 1 = mtu"
  shows "pushMultiFrameTransfer_frame (Suc mtu) tid psz offset crc sot tg ptr =
           (take (psz - offset) ptr @ [crc_hi crc, makeTailByte sot False tg tid],
            psz + 1, crc, drop (psz - offset) ptr)"
  using assms
  by (simp add: pushMultiFrameTransfer_frame_def Let_def pushMultiFrameTransfer_padding_eq
      CRC_SIZE_BYTES_def crc_hi_def)

lemma frame_last:
  assumes "offset < psz" and "psz - offset + 2 \<le> fpswt - 1"
  shows "pushMultiFrameTransfer_frame fpswt tid psz offset crc sot tg ptr =
           (take (psz - offset) ptr @ replicate (fpswt - 1 - 2 - (psz - offset)) PADDING_BYTE @
              [crc_hi (foldl crcAddByte crc (replicate (fpswt - 1 - 2 - (psz - offset)) PADDING_BYTE)),
               crc_lo (foldl crcAddByte crc (replicate (fpswt - 1 - 2 - (psz - offset)) PADDING_BYTE)),
               makeTailByte sot True tg tid],
            psz + 2, foldl crcAddByte crc (replicate (fpswt - 1 - 2 - (psz - offset)) PADDING_BYTE),
            drop (psz - offset) ptr)"
  using assms
  by (simp add: pushMultiFrameTransfer_frame_def Let_def pushMultiFrameTransfer_padding_eq
      CRC_SIZE_BYTES_def crc_hi_def crc_lo_def)

lemma frame_crc_only:
  "pushMultiFrameTransfer_frame 3 tid psz psz crc sot tg ptr =
           ([crc_hi crc, crc_lo crc, makeTailByte sot True tg tid], psz + 2, crc, ptr)"
  by (simp add: pushMultiFrameTransfer_frame_def Let_def pushMultiFrameTransfer_padding_eq
      CRC_SIZE_BYTES_def crc_hi_def crc_lo_def)

lemma frame_crc_lo_only:
  "pushMultiFrameTransfer_frame 2 tid psz (Suc psz) crc sot tg ptr =
           ([crc_lo crc, makeTailByte sot True tg tid], psz + 2, crc, ptr)"
  by (simp add: pushMultiFrameTransfer_frame_def Let_def pushMultiFrameTransfer_padding_eq
      CRC_SIZE_BYTES_def crc_hi_def crc_lo_def)

lemma next_frame_size_full:
  "offset < psz \<Longrightarrow> mtu \<le> psz - offset + 1 \<Longrightarrow> next_frame_size mtu psz offset = Suc mtu"
  by (auto simp add: next_frame_size_def CRC_SIZE_BYTES_def)

lemma next_frame_size_last:
  assumes "offset < psz" and "psz - offset + 2 \<le> mtu" and "mtu \<le> 63"
  shows "psz - offset + 2 \<le> next_frame_size mtu psz offset - 1"
proof -
  have e: "psz + CRC_SIZE_BYTES - offset = psz - offset + 2"
    using assms by (simp add: CRC_SIZE_BYTES_def)
  show ?thesis
  proof (cases "psz - offset + 2 < mtu")
    case True
    with assms have "psz - offset + 2 + 1 \<le> 64" by simp
    from roundFramePayloadSizeUp_ge [OF this] True show ?thesis
      unfolding next_frame_size_def e by simp
  next
    case False
    with assms show ?thesis unfolding next_frame_size_def e by simp
  qed
qed

lemma next_frame_size_crc: "7 \<le> mtu \<Longrightarrow> next_frame_size mtu psz psz = 3"
  by (simp add: next_frame_size_def CRC_SIZE_BYTES_def roundFramePayloadSizeUp_small)

lemma next_frame_size_lo: "7 \<le> mtu \<Longrightarrow> next_frame_size mtu psz (Suc psz) = 2"
  by (simp add: next_frame_size_def CRC_SIZE_BYTES_def roundFramePayloadSizeUp_small)

lemma frame_cases:
  assumes "offset < psz + 2"
  obtains (full) "offset < psz" "mtu \<le> psz - offset"
    | (hi) "offset < psz" "psz - offset + 1 = mtu"
    | (last) "offset < psz" "psz - offset + 2 \<le> mtu"
    | (crc) "offset = psz"
    | (lo) "offset = Suc psz"
  using assms by linarith

lemma frame_progress:
  assumes mtu: "7 \<le> mtu" "mtu \<le> 63" and off: "offset < psz + 2"
  shows "\<exists>buf offset1 crc1 ptr1.
           pushMultiFrameTransfer_frame (next_frame_size mtu psz offset) tid psz offset crc sot tg ptr
             = (buf, offset1, crc1, ptr1) \<and> offset < offset1 \<and> offset1 \<le> psz + 2"
  using off
proof (cases rule: frame_cases [where mtu = mtu])
  case full
  with mtu show ?thesis by (simp add: frame_full next_frame_size_full)
next
  case hi
  then show ?thesis by (simp add: frame_with_crc_hi next_frame_size_full)
next
  case last
  with next_frame_size_last [OF last mtu(2)] show ?thesis by (simp add: frame_last)
next
  case crc
  with mtu show ?thesis by (simp add: frame_crc_only next_frame_size_crc)
next
  case lo
  with mtu show ?thesis by (simp add: frame_crc_lo_only next_frame_size_lo)
qed

lemma stream_slice_payload:
  assumes "offset + n \<le> psz" and "psz \<le> length bs"
  shows "take n (drop offset (take psz bs @ X)) = take n (drop offset bs)"
proof -
  have "drop offset (take psz bs @ X) = drop offset (take psz bs) @ X"
    using assms by simp
  moreover have "drop offset (take psz bs) = take (psz - offset) (drop offset bs)"
    by (rule drop_take)
  moreover have "n \<le> length (take (psz - offset) (drop offset bs))"
    using assms by simp
  ultimately show ?thesis using assms by (simp add: min_def)
qed

lemma stream_slice_crc_hi:
  assumes "offset < psz" and "psz \<le> length bs"
  shows "take (Suc (psz - offset)) (drop offset (take psz bs @ [h, l]))
           = take (psz - offset) (drop offset bs) @ [h]"
proof -
  have "drop offset (take psz bs @ [h, l]) = drop offset (take psz bs) @ [h, l]"
    using assms by simp
  moreover have "drop offset (take psz bs) = take (psz - offset) (drop offset bs)"
    by (rule drop_take)
  moreover have "length (take (psz - offset) (drop offset bs)) = psz - offset"
    using assms by simp
  ultimately show ?thesis by simp
qed

lemma frame_content:
  assumes mtu: "7 \<le> mtu" "mtu \<le> 63" and off: "offset < psz + 2" and len: "psz \<le> length bs"
  shows "\<exists>body offset1 crc1.
     pushMultiFrameTransfer_frame (next_frame_size mtu psz offset) tid psz offset crc sot tg
         (drop (min offset psz) bs)
        = (body @ [makeTailByte sot (psz + 2 \<le> offset1) tg tid], offset1, crc1,
           drop (min offset1 psz) bs)
     \<and> Suc (length body) = next_frame_size mtu psz offset
     \<and> offset < offset1 \<and> offset1 \<le> psz + 2
     \<and> (offset1 < psz + 2 \<longrightarrow>
          crc1 = crc \<and> next_frame_size mtu psz offset = Suc mtu \<and>
          body = take (offset1 - offset) (drop offset (take psz bs @ [crc_hi crc, crc_lo crc])))
     \<and> (offset1 = psz + 2 \<longrightarrow>
          (\<exists>k. crc1 = foldl crcAddByte crc (replicate k PADDING_BYTE) \<and>
               body = drop offset (take psz bs) @ replicate k PADDING_BYTE @
                        drop (offset - psz) [crc_hi crc1, crc_lo crc1] \<and>
               (0 < k \<longrightarrow> offset < psz)))"
  using off
proof (cases rule: frame_cases [where mtu = mtu])
  case full
  then have o: "offset + mtu \<le> psz" by simp
  have m: "min (offset + mtu) psz = offset + mtu" "min offset psz = offset"
    using o by simp_all
  have fr: "pushMultiFrameTransfer_frame (next_frame_size mtu psz offset) tid psz offset crc sot tg
              (drop (min offset psz) bs)
            = (take mtu (drop offset bs) @ [makeTailByte sot (psz + 2 \<le> offset + mtu) tg tid],
               offset + mtu, crc, drop (min (offset + mtu) psz) bs)"
    using full mtu o unfolding m by (simp add: frame_full next_frame_size_full add.commute)
  have l: "Suc (length (take mtu (drop offset bs))) = next_frame_size mtu psz offset"
    using full o len by (simp add: next_frame_size_full)
  have b: "take mtu (drop offset bs)
             = take (offset + mtu - offset) (drop offset (take psz bs @ [crc_hi crc, crc_lo crc]))"
  proof -
    have e: "offset + mtu - offset = mtu" by simp
    show ?thesis unfolding e by (rule stream_slice_payload [OF o len, symmetric])
  qed
  have n: "next_frame_size mtu psz offset = Suc mtu"
    using full by (simp add: next_frame_size_full)
  show ?thesis
    apply (rule exI [where x = "take mtu (drop offset bs)"])
    apply (rule exI [where x = "offset + mtu"])
    apply (rule exI [where x = crc])
    apply (intro conjI impI)
    subgoal by (rule fr)
    subgoal by (rule l)
    subgoal using mtu by simp
    subgoal using o by simp
    subgoal by simp
    subgoal by (rule n)
    subgoal by (rule b)
    subgoal using o by simp
    done
next
  case hi
  have m: "min (Suc psz) psz = psz" "min offset psz = offset"
    using hi by simp_all
  have fr: "pushMultiFrameTransfer_frame (next_frame_size mtu psz offset) tid psz offset crc sot tg
              (drop (min offset psz) bs)
            = ((take (psz - offset) (drop offset bs) @ [crc_hi crc]) @
                  [makeTailByte sot (psz + 2 \<le> Suc psz) tg tid],
               Suc psz, crc, drop (min (Suc psz) psz) bs)"
    using hi unfolding m by (simp add: frame_with_crc_hi next_frame_size_full add.commute)
  have l: "Suc (length (take (psz - offset) (drop offset bs) @ [crc_hi crc]))
             = next_frame_size mtu psz offset"
    using hi len by (simp add: next_frame_size_full)
  have b: "take (psz - offset) (drop offset bs) @ [crc_hi crc]
             = take (Suc psz - offset) (drop offset (take psz bs @ [crc_hi crc, crc_lo crc]))"
  proof -
    have e: "Suc psz - offset = Suc (psz - offset)" using hi by simp
    show ?thesis unfolding e by (rule stream_slice_crc_hi [OF hi(1) len, symmetric])
  qed
  have n: "next_frame_size mtu psz offset = Suc mtu"
    using hi by (simp add: next_frame_size_full)
  show ?thesis
    apply (rule exI [where x = "take (psz - offset) (drop offset bs) @ [crc_hi crc]"])
    apply (rule exI [where x = "Suc psz"])
    apply (rule exI [where x = crc])
    apply (intro conjI impI)
    subgoal by (rule fr)
    subgoal by (rule l)
    subgoal using hi by simp
    subgoal by simp
    subgoal by simp
    subgoal by (rule n)
    subgoal by (rule b)
    subgoal by simp
    done
next
  case last
  let ?k = "next_frame_size mtu psz offset - 1 - 2 - (psz - offset)"
  let ?c = "foldl crcAddByte crc (replicate ?k PADDING_BYTE)"
  note sz = next_frame_size_last [OF last mtu(2)]
  have m: "min (psz + 2) psz = psz" "min offset psz = offset"
    using last by simp_all
  have fr: "pushMultiFrameTransfer_frame (next_frame_size mtu psz offset) tid psz offset crc sot tg
              (drop (min offset psz) bs)
            = ((drop offset (take psz bs) @ replicate ?k PADDING_BYTE @
                  drop (offset - psz) [crc_hi ?c, crc_lo ?c]) @
                  [makeTailByte sot (psz + 2 \<le> psz + 2) tg tid],
               psz + 2, ?c, drop (min (psz + 2) psz) bs)"
    using last sz unfolding m by (simp add: frame_last drop_take)
  have l: "Suc (length (drop offset (take psz bs) @ replicate ?k PADDING_BYTE @
                  drop (offset - psz) [crc_hi ?c, crc_lo ?c]))
             = next_frame_size mtu psz offset"
    using last len sz by simp
  show ?thesis
    apply (rule exI [where x = "drop offset (take psz bs) @ replicate ?k PADDING_BYTE @
                  drop (offset - psz) [crc_hi ?c, crc_lo ?c]"])
    apply (rule exI [where x = "psz + 2"])
    apply (rule exI [where x = ?c])
    apply (intro conjI impI)
    subgoal by (rule fr)
    subgoal by (rule l)
    subgoal using last by simp
    subgoal by simp
    subgoal by simp
    subgoal by simp
    subgoal by simp
    subgoal using last by (intro exI [where x = ?k] conjI impI) simp_all
    done
next
  case crc
  have fr: "pushMultiFrameTransfer_frame (next_frame_size mtu psz offset) tid psz offset crc sot tg
              (drop (min offset psz) bs)
            = ((drop offset (take psz bs) @ replicate 0 PADDING_BYTE @
                  drop (offset - psz) [crc_hi (foldl crcAddByte crc (replicate 0 PADDING_BYTE)),
                                       crc_lo (foldl crcAddByte crc (replicate 0 PADDING_BYTE))]) @
                  [makeTailByte sot (psz + 2 \<le> psz + 2) tg tid],
               psz + 2, foldl crcAddByte crc (replicate 0 PADDING_BYTE), drop (min (psz + 2) psz) bs)"
    using crc mtu len by (simp add: frame_crc_only next_frame_size_crc)
  have l: "Suc (length (drop offset (take psz bs) @ replicate 0 PADDING_BYTE @
                  drop (offset - psz) [crc_hi (foldl crcAddByte crc (replicate 0 PADDING_BYTE)),
                                       crc_lo (foldl crcAddByte crc (replicate 0 PADDING_BYTE))]))
             = next_frame_size mtu psz offset"
    using crc mtu len by (simp add: next_frame_size_crc)
  show ?thesis
    apply (rule exI [where x = "drop offset (take psz bs) @ replicate 0 PADDING_BYTE @
                  drop (offset - psz) [crc_hi (foldl crcAddByte crc (replicate 0 PADDING_BYTE)),
                                       crc_lo (foldl crcAddByte crc (replicate 0 PADDING_BYTE))]"])
    apply (rule exI [where x = "psz + 2"])
    apply (rule exI [where x = "foldl crcAddByte crc (replicate 0 PADDING_BYTE)"])
    apply (intro conjI impI)
    subgoal by (rule fr)
    subgoal by (rule l)
    subgoal using crc by simp
    subgoal by simp
    subgoal by simp
    subgoal by simp
    subgoal by simp
    subgoal by (intro exI [where x = 0] conjI impI) simp_all
    done
next
  case lo
  have fr: "pushMultiFrameTransfer_frame (next_frame_size mtu psz offset) tid psz offset crc sot tg
              (drop (min offset psz) bs)
            = ((drop offset (take psz bs) @ replicate 0 PADDING_BYTE @
                  drop (offset - psz) [crc_hi (foldl crcAddByte crc (replicate 0 PADDING_BYTE)),
                                       crc_lo (foldl crcAddByte crc (replicate 0 PADDING_BYTE))]) @
                  [makeTailByte sot (psz + 2 \<le> psz + 2) tg tid],
               psz + 2, foldl crcAddByte crc (replicate 0 PADDING_BYTE), drop (min (psz + 2) psz) bs)"
    using lo mtu len by (simp add: frame_crc_lo_only next_frame_size_lo)
  have l: "Suc (length (drop offset (take psz bs) @ replicate 0 PADDING_BYTE @
                  drop (offset - psz) [crc_hi (foldl crcAddByte crc (replicate 0 PADDING_BYTE)),
                                       crc_lo (foldl crcAddByte crc (replicate 0 PADDING_BYTE))]))
             = next_frame_size mtu psz offset"
    using lo mtu len by (simp add: next_frame_size_lo)
  show ?thesis
    apply (rule exI [where x = "drop offset (take psz bs) @ replicate 0 PADDING_BYTE @
                  drop (offset - psz) [crc_hi (foldl crcAddByte crc (replicate 0 PADDING_BYTE)),
                                       crc_lo (foldl crcAddByte crc (replicate 0 PADDING_BYTE))]"])
    apply (rule exI [where x = "psz + 2"])
    apply (rule exI [where x = "foldl crcAddByte crc (replicate 0 PADDING_BYTE)"])
    apply (intro conjI impI)
    subgoal by (rule fr)
    subgoal by (rule l)
    subgoal using lo by simp
    subgoal by simp
    subgoal by simp
    subgoal by simp
    subgoal by simp
    subgoal by (intro exI [where x = 0] conjI impI) simp_all
    done
qed

lemma loop_exit:
  "\<not> offset < psz + 2 \<Longrightarrow>
   pushMultiFrameTransfer_loop mtu dl cid tid psz out chain offset crc sot tg ptr ins
     = Some (out, chain, chain = [], ins)"
  by (subst pushMultiFrameTransfer_loop.simps) (simp add: CRC_SIZE_BYTES_def)

lemma loop_fail:
  "offset < psz + 2 \<Longrightarrow>
   allocateTxQueueItem ins cid dl (next_frame_size mtu psz offset) = (None, ins1) \<Longrightarrow>
   pushMultiFrameTransfer_loop mtu dl cid tid psz out chain offset crc sot tg ptr ins
     = Some (out + 1, chain, True, ins1)"
  by (subst pushMultiFrameTransfer_loop.simps) (simp add: CRC_SIZE_BYTES_def next_frame_size_def)

lemma loop_step:
  "offset < psz + 2 \<Longrightarrow>
   allocateTxQueueItem ins cid dl (next_frame_size mtu psz offset) = (Some tqi, ins1) \<Longrightarrow>
   pushMultiFrameTransfer_frame (next_frame_size mtu psz offset) tid psz offset crc sot tg ptr
     = (buf, offset1, crc1, ptr1) \<Longrightarrow>
   pushMultiFrameTransfer_loop mtu dl cid tid psz out chain offset crc sot tg ptr ins
     = pushMultiFrameTransfer_loop mtu dl cid tid psz (out + 1) (chain @ [tqi\<lparr>tqi_payload := buf\<rparr>])
         offset1 crc1 False (\<not> tg) ptr1 ins1"
  by (subst pushMultiFrameTransfer_loop.simps) (simp add: CRC_SIZE_BYTES_def next_frame_size_def)

lemma allocateTxQueueItem_cases:
  obtains (fail) m where "memory_allocate ins (memory ins) (sizeof_CanardInternalTxQueueItem + n) = (None, m)"
      "allocateTxQueueItem ins cid dl n = (None, ins\<lparr>memory := m\<rparr>)"
  | (ok) a m where "memory_allocate ins (memory ins) (sizeof_CanardInternalTxQueueItem + n) = (Some a, m)"
      "allocateTxQueueItem ins cid dl n =
         (Some \<lparr>tqi_addr = a, tqi_deadline_usec = dl, tqi_payload_size = n, tqi_id = cid, tqi_payload = []\<rparr>,
          ins\<lparr>memory := m\<rparr>)"
proof (cases "memory_allocate ins (memory ins) (sizeof_CanardInternalTxQueueItem + n)")
  case (Pair p m)
  then show ?thesis
    by (cases p) (auto simp add: allocateTxQueueItem_def intro: fail ok)
qed

lemma loop_structure:
  assumes mtu: "7 \<le> mtu" "mtu \<le> 63"
  shows "\<exists>out' new tn m'.
     pushMultiFrameTransfer_loop mtu dl cid tid psz out chain offset crc sot tg ptr ins
       = Some (out', chain @ new, tn, ins\<lparr>memory := m'\<rparr>)
     \<and> (\<forall>x\<in>set new. tqi_id x = cid \<and> tqi_deadline_usec x = dl)
     \<and> (\<not> tn \<longrightarrow> out' = out + length new \<and> chain @ new \<noteq> [])"
proof (induction "psz + 2 - offset" arbitrary: out chain offset crc sot tg ptr ins rule: less_induct)
  case less
  show ?case
  proof (cases "offset < psz + 2")
    case False
    have "pushMultiFrameTransfer_loop mtu dl cid tid psz out chain offset crc sot tg ptr ins
            = Some (out, chain @ [], chain = [], ins\<lparr>memory := memory ins\<rparr>)"
      using loop_exit [OF False] by simp
    then show ?thesis by (intro exI conjI) (assumption | simp)+
  next
    case True
    show ?thesis
    proof (cases rule: allocateTxQueueItem_cases [of ins "next_frame_size mtu psz offset" cid dl])
      case (fail m)
      have "pushMultiFrameTransfer_loop mtu dl cid tid psz out chain offset crc sot tg ptr ins
            = Some (out + 1, chain @ [], True, ins\<lparr>memory := m\<rparr>)"
        using loop_fail [OF True fail(2)] by simp
      then show ?thesis by (intro exI conjI) (assumption | simp)+
    next
      case (ok a m)
      let ?tqi = "\<lparr>tqi_addr = a, tqi_deadline_usec = dl,
                    tqi_payload_size = next_frame_size mtu psz offset, tqi_id = cid, tqi_payload = []\<rparr>"
      from frame_progress [OF mtu True, of tid crc sot tg ptr]
      obtain buf offset1 crc1 ptr1 where
        fr: "pushMultiFrameTransfer_frame (next_frame_size mtu psz offset) tid psz offset crc sot tg ptr
               = (buf, offset1, crc1, ptr1)"
        and pr: "offset < offset1" "offset1 \<le> psz + 2"
        by blast
      from pr True have dec: "psz + 2 - offset1 < psz + 2 - offset" by simp
      from less [OF dec, of "out + 1" "chain @ [?tqi\<lparr>tqi_payload := buf\<rparr>]" crc1 False "\<not> tg" ptr1
                    "ins\<lparr>memory := m\<rparr>"]
      obtain out' new tn m' where
        r: "pushMultiFrameTransfer_loop mtu dl cid tid psz (out + 1) (chain @ [?tqi\<lparr>tqi_payload := buf\<rparr>])
              offset1 crc1 False (\<not> tg) ptr1 (ins\<lparr>memory := m\<rparr>)
            = Some (out', (chain @ [?tqi\<lparr>tqi_payload := buf\<rparr>]) @ new, tn, ins\<lparr>memory := m, memory := m'\<rparr>)"
        and ids: "\<forall>x\<in>set new. tqi_id x = cid \<and> tqi_deadline_usec x = dl"
        and cnt: "\<not> tn \<longrightarrow> out' = out + 1 + length new \<and> (chain @ [?tqi\<lparr>tqi_payload := buf\<rparr>]) @ new \<noteq> []"
        by blast
      have "pushMultiFrameTransfer_loop mtu dl cid tid psz out chain offset crc sot tg ptr ins
            = Some (out', chain @ (?tqi\<lparr>tqi_payload := buf\<rparr> # new), tn, ins\<lparr>memory := m'\<rparr>)"
        using loop_step [OF True ok(2) fr] r by simp
      moreover have "\<forall>x\<in>set (?tqi\<lparr>tqi_payload := buf\<rparr> # new). tqi_id x = cid \<and> tqi_deadline_usec x = dl"
        using ids by simp
      moreover have "\<not> tn \<longrightarrow> out' = out + length (?tqi\<lparr>tqi_payload := buf\<rparr> # new) \<and>
                       chain @ (?tqi\<lparr>tqi_payload := buf\<rparr> # new) \<noteq> []"
        using cnt by simp
      ultimately show ?thesis by blast
    qed
  qed
qed

section \<open>The effect of a push on the queue\<close>

lemma pushMultiFrameTransfer_free_memory:
  "pushMultiFrameTransfer_free ins chain = ins\<lparr>memory := memory (pushMultiFrameTransfer_free ins chain)\<rparr>"
proof (induction chain arbitrary: ins)
  case Nil
  show ?case by simp
next
  case (Cons h t)
  let ?i = "ins\<lparr>memory := memory_free ins (memory ins) (Some (tqi_addr h))\<rparr>"
  from Cons [of ?i] have "pushMultiFrameTransfer_free ?i t = ?i\<lparr>memory := memory (pushMultiFrameTransfer_free ?i t)\<rparr>" .
  then show ?case by simp
qed

lemma pushSingleFrameTransfer_cases:
  obtains (oom) m where
      "memory_allocate ins (memory ins)
         (sizeof_CanardInternalTxQueueItem + roundFramePayloadSizeUp (psz + 1)) = (None, m)"
      "pushSingleFrameTransfer ins dl cid tid psz payload
         = (Inl CANARD_ERROR_OUT_OF_MEMORY, ins\<lparr>memory := m\<rparr>)"
  | (ok) a m where
      "memory_allocate ins (memory ins)
         (sizeof_CanardInternalTxQueueItem + roundFramePayloadSizeUp (psz + 1)) = (Some a, m)"
      "pushSingleFrameTransfer ins dl cid tid psz payload =
         (Inr 1, ins\<lparr>memory := m,
                      tx_queue :=
                        takeWhile (\<lambda>x. tqi_id x \<le> cid) (tx_queue ins) @
                        [\<lparr>tqi_addr = a, tqi_deadline_usec = dl,
                          tqi_payload_size = roundFramePayloadSizeUp (psz + 1), tqi_id = cid,
                          tqi_payload =
                            take psz (bytes_at payload) @
                            replicate (roundFramePayloadSizeUp (psz + 1) - psz - 1) PADDING_BYTE @
                            [makeTailByte True True True tid]\<rparr>] @
                        dropWhile (\<lambda>x. tqi_id x \<le> cid) (tx_queue ins)\<rparr>)"
proof (cases rule: allocateTxQueueItem_cases [of ins "roundFramePayloadSizeUp (psz + 1)" cid dl])
  case (fail m)
  then show ?thesis
    by (intro oom [of m]) (simp_all add: pushSingleFrameTransfer_def Let_def)
next
  case (ok a m)
  have q: "tx_queue (ins\<lparr>memory := m\<rparr>) = tx_queue ins" by simp
  have t: "(if 0 < psz then take psz (bytes_at payload) else []) = take psz (bytes_at payload)"
    by simp
  from insert_after_supremum [of "ins\<lparr>memory := m\<rparr>" cid] ok show ?thesis
    unfolding q
    by (intro that(2) [of a m]) (simp_all add: pushSingleFrameTransfer_def Let_def t del: One_nat_def)
qed

lemma pushMultiFrameTransfer_result:
  assumes mtu: "7 \<le> mtu" "mtu \<le> 63"
  shows "\<exists>m. pushMultiFrameTransfer ins mtu dl cid tid psz payload = Some (Inl CANARD_ERROR_OUT_OF_MEMORY, ins\<lparr>memory := m\<rparr>)
    \<or> (\<exists>chain. chain \<noteq> [] \<and> (\<forall>x\<in>set chain. tqi_id x = cid \<and> tqi_deadline_usec x = dl) \<and>
         pushMultiFrameTransfer ins mtu dl cid tid psz payload =
         Some (Inr (length chain), ins\<lparr>memory := m,
                      tx_queue := takeWhile (\<lambda>x. tqi_id x \<le> cid) (tx_queue ins) @ chain @
                                  dropWhile (\<lambda>x. tqi_id x \<le> cid) (tx_queue ins)\<rparr>))"
proof -
  from loop_structure [OF mtu, of dl cid tid psz 0 "[]" 0 "crcAdd CRC_INITIAL psz (bytes_at payload)" True True
         "bytes_at payload" ins]
  obtain out' new tn m' where
    r: "pushMultiFrameTransfer_loop mtu dl cid tid psz 0 [] 0 (crcAdd CRC_INITIAL psz (bytes_at payload)) True True
          (bytes_at payload) ins = Some (out', new, tn, ins\<lparr>memory := m'\<rparr>)"
    and ids: "\<forall>x\<in>set new. tqi_id x = cid \<and> tqi_deadline_usec x = dl"
    and cnt: "\<not> tn \<longrightarrow> out' = length new \<and> new \<noteq> []"
    by auto
  show ?thesis
  proof (cases tn)
    case True
    from pushMultiFrameTransfer_free_memory [of "ins\<lparr>memory := m'\<rparr>" new]
    have "pushMultiFrameTransfer_free (ins\<lparr>memory := m'\<rparr>) new
            = ins\<lparr>memory := memory (pushMultiFrameTransfer_free (ins\<lparr>memory := m'\<rparr>) new)\<rparr>"
      by simp
    with True r show ?thesis
      by (simp add: pushMultiFrameTransfer_def) metis
  next
    case False
    have q: "tx_queue (ins\<lparr>memory := m'\<rparr>) = tx_queue ins" by simp
    from False cnt have c: "out' = length new" "new \<noteq> []" by simp_all
    from False r insert_after_supremum [of "ins\<lparr>memory := m'\<rparr>" cid new]
    have "pushMultiFrameTransfer ins mtu dl cid tid psz payload =
         Some (Inr (length new), ins\<lparr>memory := m',
                      tx_queue := takeWhile (\<lambda>x. tqi_id x \<le> cid) (tx_queue ins) @ new @
                                  dropWhile (\<lambda>x. tqi_id x \<le> cid) (tx_queue ins)\<rparr>)"
      unfolding q by (simp add: pushMultiFrameTransfer_def Let_def c)
    with c ids show ?thesis by blast
  qed
qed

lemma canardTxPush_result:
  obtains (error) e m where
      "canardTxPush (Some ins) (Some tr) = Some (Inl e, Some (ins\<lparr>memory := m\<rparr>))"
  | (pushed) cid chain m where
      "makeCANID tr (node_id ins) (getPresentationLayerMTU ins) = Inr cid"
      "chain \<noteq> []" "\<forall>x\<in>set chain. tqi_id x = cid \<and> tqi_deadline_usec x = tr_timestamp_usec tr"
      "canardTxPush (Some ins) (Some tr) =
         Some (Inr (length chain),
               Some (ins\<lparr>memory := m,
                         tx_queue := takeWhile (\<lambda>x. tqi_id x \<le> cid) (tx_queue ins) @ chain @
                                     dropWhile (\<lambda>x. tqi_id x \<le> cid) (tx_queue ins)\<rparr>))"
proof (cases "tr_payload tr \<noteq> None \<or> 0 = tr_payload_size tr")
  case False
  then have "canardTxPush (Some ins) (Some tr)
               = Some (Inl CANARD_ERROR_INVALID_ARGUMENT, Some (ins\<lparr>memory := memory ins\<rparr>))"
    by (simp add: canardTxPush_def)
  then show ?thesis by (rule error)
next
  case True
  show ?thesis
  proof (cases "makeCANID tr (node_id ins) (getPresentationLayerMTU ins)")
    case (Inl e)
    with True have "canardTxPush (Some ins) (Some tr)
               = Some (Inl e, Some (ins\<lparr>memory := memory ins\<rparr>))"
      by (simp add: canardTxPush_def Let_def)
    then show ?thesis by (rule error)
  next
    case (Inr cid)
    show ?thesis
    proof (cases "tr_payload_size tr \<le> getPresentationLayerMTU ins")
      case single: True
      show ?thesis
      proof (cases rule: pushSingleFrameTransfer_cases
               [of ins "tr_payload_size tr" "tr_timestamp_usec tr" cid "tr_transfer_id tr" "tr_payload tr"])
        case (oom m)
        with True Inr single have "canardTxPush (Some ins) (Some tr)
               = Some (Inl CANARD_ERROR_OUT_OF_MEMORY, Some (ins\<lparr>memory := m\<rparr>))"
          by (simp add: canardTxPush_def Let_def)
        then show ?thesis by (rule error)
      next
        case (ok a m)
        let ?c = "[\<lparr>tqi_addr = a, tqi_deadline_usec = tr_timestamp_usec tr,
                          tqi_payload_size = roundFramePayloadSizeUp (tr_payload_size tr + 1), tqi_id = cid,
                          tqi_payload =
                            take (tr_payload_size tr) (bytes_at (tr_payload tr)) @
                            replicate (roundFramePayloadSizeUp (tr_payload_size tr + 1) - tr_payload_size tr - 1) PADDING_BYTE @
                            [makeTailByte True True True (tr_transfer_id tr)]\<rparr>]"
        from True Inr single ok(2) have "canardTxPush (Some ins) (Some tr) =
         Some (Inr (length ?c),
               Some (ins\<lparr>memory := m,
                         tx_queue := takeWhile (\<lambda>x. tqi_id x \<le> cid) (tx_queue ins) @ ?c @
                                     dropWhile (\<lambda>x. tqi_id x \<le> cid) (tx_queue ins)\<rparr>))"
          by (simp add: canardTxPush_def Let_def)
        then show ?thesis by (intro pushed [OF Inr, of ?c m]) simp_all
      qed
    next
      case multi: False
      from getPresentationLayerMTU_range [of ins]
      have mtu: "7 \<le> getPresentationLayerMTU ins" "getPresentationLayerMTU ins \<le> 63" by simp_all
      from pushMultiFrameTransfer_result [OF mtu, of ins "tr_timestamp_usec tr" cid "tr_transfer_id tr"
             "tr_payload_size tr" "tr_payload tr"]
      obtain m where
        "pushMultiFrameTransfer ins (getPresentationLayerMTU ins) (tr_timestamp_usec tr) cid
            (tr_transfer_id tr) (tr_payload_size tr) (tr_payload tr)
           = Some (Inl CANARD_ERROR_OUT_OF_MEMORY, ins\<lparr>memory := m\<rparr>)
         \<or> (\<exists>chain. chain \<noteq> [] \<and>
               (\<forall>x\<in>set chain. tqi_id x = cid \<and> tqi_deadline_usec x = tr_timestamp_usec tr) \<and>
               pushMultiFrameTransfer ins (getPresentationLayerMTU ins) (tr_timestamp_usec tr) cid
                 (tr_transfer_id tr) (tr_payload_size tr) (tr_payload tr) =
               Some (Inr (length chain), ins\<lparr>memory := m,
                      tx_queue := takeWhile (\<lambda>x. tqi_id x \<le> cid) (tx_queue ins) @ chain @
                                  dropWhile (\<lambda>x. tqi_id x \<le> cid) (tx_queue ins)\<rparr>))"
        by blast
      then show ?thesis
      proof
        assume "pushMultiFrameTransfer ins (getPresentationLayerMTU ins) (tr_timestamp_usec tr) cid
            (tr_transfer_id tr) (tr_payload_size tr) (tr_payload tr)
           = Some (Inl CANARD_ERROR_OUT_OF_MEMORY, ins\<lparr>memory := m\<rparr>)"
        with True Inr multi have "canardTxPush (Some ins) (Some tr)
               = Some (Inl CANARD_ERROR_OUT_OF_MEMORY, Some (ins\<lparr>memory := m\<rparr>))"
          by (simp add: canardTxPush_def Let_def)
        then show ?thesis by (rule error)
      next
        assume "\<exists>chain. chain \<noteq> [] \<and>
               (\<forall>x\<in>set chain. tqi_id x = cid \<and> tqi_deadline_usec x = tr_timestamp_usec tr) \<and>
               pushMultiFrameTransfer ins (getPresentationLayerMTU ins) (tr_timestamp_usec tr) cid
                 (tr_transfer_id tr) (tr_payload_size tr) (tr_payload tr) =
               Some (Inr (length chain), ins\<lparr>memory := m,
                      tx_queue := takeWhile (\<lambda>x. tqi_id x \<le> cid) (tx_queue ins) @ chain @
                                  dropWhile (\<lambda>x. tqi_id x \<le> cid) (tx_queue ins)\<rparr>)"
        then obtain chain where c: "chain \<noteq> []"
          "\<forall>x\<in>set chain. tqi_id x = cid \<and> tqi_deadline_usec x = tr_timestamp_usec tr"
          "pushMultiFrameTransfer ins (getPresentationLayerMTU ins) (tr_timestamp_usec tr) cid
                 (tr_transfer_id tr) (tr_payload_size tr) (tr_payload tr) =
               Some (Inr (length chain), ins\<lparr>memory := m,
                      tx_queue := takeWhile (\<lambda>x. tqi_id x \<le> cid) (tx_queue ins) @ chain @
                                  dropWhile (\<lambda>x. tqi_id x \<le> cid) (tx_queue ins)\<rparr>)"
          by blast
        from True Inr multi c(3) have "canardTxPush (Some ins) (Some tr) =
         Some (Inr (length chain),
               Some (ins\<lparr>memory := m,
                         tx_queue := takeWhile (\<lambda>x. tqi_id x \<le> cid) (tx_queue ins) @ chain @
                                     dropWhile (\<lambda>x. tqi_id x \<le> cid) (tx_queue ins)\<rparr>))"
          by (simp add: canardTxPush_def Let_def)
        with c(1,2) show ?thesis by (intro pushed [OF Inr, of chain m])
      qed
    qed
  qed
qed

lemma queue_sorted_insert:
  assumes "queue_sorted q" and "\<forall>x\<in>set chain. tqi_id x = cid"
  shows "queue_sorted (takeWhile (\<lambda>x. tqi_id x \<le> cid) q @ chain @ dropWhile (\<lambda>x. tqi_id x \<le> cid) q)"
    and "\<forall>x\<in>set (takeWhile (\<lambda>x. tqi_id x \<le> cid) q). tqi_id x \<le> cid"
    and "\<forall>x\<in>set (dropWhile (\<lambda>x. tqi_id x \<le> cid) q). cid < tqi_id x"
proof -
  show t: "\<forall>x\<in>set (takeWhile (\<lambda>x. tqi_id x \<le> cid) q). tqi_id x \<le> cid"
    by (auto dest: set_takeWhileD)
  show d: "\<forall>x\<in>set (dropWhile (\<lambda>x. tqi_id x \<le> cid) q). cid < tqi_id x"
    using assms(1) unfolding queue_sorted_def
  proof (induction q)
    case Nil
    show ?case by simp
  next
    case (Cons a q)
    then show ?case by (auto simp add: not_le) 
  qed
  have s: "sorted_wrt (\<lambda>a b. tqi_id a \<le> tqi_id b) (takeWhile (\<lambda>x. tqi_id x \<le> cid) q @ dropWhile (\<lambda>x. tqi_id x \<le> cid) q)"
    using assms(1) by (simp add: queue_sorted_def)
  have c: "sorted_wrt (\<lambda>a b. tqi_id a \<le> tqi_id b) chain"
    using assms(2) by (simp add: sorted_wrt_iff_nth_less)
  have x: "\<forall>x\<in>set (takeWhile (\<lambda>x. tqi_id x \<le> cid) q).
             \<forall>y\<in>set (dropWhile (\<lambda>x. tqi_id x \<le> cid) q). tqi_id x \<le> tqi_id y"
    using t d by (meson order.trans less_imp_le)
  from s c t d x assms(2) show "queue_sorted (takeWhile (\<lambda>x. tqi_id x \<le> cid) q @ chain @ dropWhile (\<lambda>x. tqi_id x \<le> cid) q)"
    unfolding queue_sorted_def
    by (auto simp add: sorted_wrt_append dest: less_imp_le)
qed

section \<open>The queue stays ordered\<close>

lemma canardTxPop_queue:
  "\<exists>ins'. canardTxPop (Some ins) = Some ins' \<and> tx_queue ins' = tl (tx_queue ins)"
  by (cases "tx_queue ins") (simp_all add: canardTxPop_def)

lemma queue_sorted_tl: "queue_sorted q \<Longrightarrow> queue_sorted (tl q)"
  by (cases q) (simp_all add: queue_sorted_def)

lemma canardTxPush_sorted:
  assumes "queue_sorted (tx_queue ins)"
  shows "\<exists>r ins'. canardTxPush (Some ins) (Some t) = Some (r, Some ins') \<and> queue_sorted (tx_queue ins')"
proof (cases rule: canardTxPush_result [of ins t])
  case (error e m)
  with assms show ?thesis by simp
next
  case (pushed cid chain m)
  from pushed(3) have "\<forall>x\<in>set chain. tqi_id x = cid" by simp
  from queue_sorted_insert(1) [OF assms this] pushed(4) show ?thesis by simp
qed

lemma tx_calls_sorted:
  "queue_sorted (tx_queue ins0) \<Longrightarrow>
   \<exists>ins. tx_calls ins0 calls = Some ins \<and> queue_sorted (tx_queue ins)"
proof (induction calls arbitrary: ins0)
  case Nil
  then show ?case by simp
next
  case (Cons c cs)
  show ?case
  proof (cases c)
    case (Push t)
    from canardTxPush_sorted [OF Cons.prems, of t]
    obtain r ins1 where p: "canardTxPush (Some ins0) (Some t) = Some (r, Some ins1)"
      and s: "queue_sorted (tx_queue ins1)" by blast
    from Cons.IH [OF s] p Push show ?thesis by simp
  next
    case Pop
    from canardTxPop_queue [of ins0]
    obtain ins1 where p: "canardTxPop (Some ins0) = Some ins1"
      and q: "tx_queue ins1 = tl (tx_queue ins0)" by blast
    from queue_sorted_tl [OF Cons.prems] q have "queue_sorted (tx_queue ins1)" by simp
    from Cons.IH [OF this] p Pop show ?thesis by simp
  next
    case (SetMTU n)
    from Cons.prems have "queue_sorted (tx_queue (ins0\<lparr>mtu_bytes := n\<rparr>))" by simp
    from Cons.IH [OF this] SetMTU show ?thesis by simp
  next
    case (SetNodeID n)
    from Cons.prems have "queue_sorted (tx_queue (ins0\<lparr>node_id := n\<rparr>))" by simp
    from Cons.IH [OF this] SetNodeID show ?thesis by simp
  qed
qed

lemma canardTxPush_stable:
  assumes "queue_sorted (tx_queue ins)"
  shows "\<exists>r ins'. canardTxPush (Some ins) (Some t) = Some (r, Some ins') \<and>
          (case r of
             Inl e \<Rightarrow> tx_queue ins' = tx_queue ins
           | Inr n \<Rightarrow>
               \<exists>pre chain post cid.
                 tx_queue ins = pre @ post \<and> tx_queue ins' = pre @ chain @ post \<and>
                 length chain = n \<and> 0 < n \<and>
                 (\<forall>x\<in>set pre. tqi_id x \<le> cid) \<and> (\<forall>x\<in>set chain. tqi_id x = cid) \<and>
                 (\<forall>x\<in>set post. cid < tqi_id x))"
proof (cases rule: canardTxPush_result [of ins t])
  case (error e m)
  then show ?thesis by simp
next
  case (pushed cid chain m)
  from pushed(3) have c: "\<forall>x\<in>set chain. tqi_id x = cid" by simp
  note s = queue_sorted_insert(2,3) [OF assms c]
  let ?pre = "takeWhile (\<lambda>x. tqi_id x \<le> cid) (tx_queue ins)"
  let ?post = "dropWhile (\<lambda>x. tqi_id x \<le> cid) (tx_queue ins)"
  have "tx_queue ins = ?pre @ ?post" by simp
  with pushed(2,4) c s show ?thesis
    apply simp
    apply (rule exI [where x = ?pre])
    apply (rule exI [where x = chain])
    apply (rule exI [where x = ?post])
    apply (rule conjI, simp)
    apply (rule conjI, simp)
    apply (rule conjI, simp)
    apply (rule exI [where x = cid])
    apply blast
    done
qed

text \<open>
  Claim C2.  Start from any instance whose queue is in ascending order of CAN-ID (the
  empty queue of a new instance is) and make any sequence of pushes and pops, with
  changes of the MTU and the node-ID in between.  Every call returns, and the queue of
  the instance reached is in ascending order of CAN-ID.  A further push either fails
  and leaves the queue as it is, or puts its frames, in the order of emission, as one
  block behind every queued frame whose CAN-ID is smaller or equal and in front of
  every queued frame whose CAN-ID is greater, the queued frames keeping their order:
  frames of equal CAN-ID leave in the order they were pushed.  Pop removes the head and
  peek shows it, so frames are taken out in ascending order of CAN-ID.
\<close>

theorem tx_queue_sorted_stable:
  assumes "queue_sorted (tx_queue ins0)"
  shows "\<exists>ins. tx_calls ins0 calls = Some ins \<and> queue_sorted (tx_queue ins) \<and>
     (\<forall>t. \<exists>r ins'. canardTxPush (Some ins) (Some t) = Some (r, Some ins') \<and>
          (case r of
             Inl e \<Rightarrow> tx_queue ins' = tx_queue ins
           | Inr n \<Rightarrow>
               \<exists>pre chain post cid.
                 tx_queue ins = pre @ post \<and> tx_queue ins' = pre @ chain @ post \<and>
                 length chain = n \<and> 0 < n \<and>
                 (\<forall>x\<in>set pre. tqi_id x \<le> cid) \<and> (\<forall>x\<in>set chain. tqi_id x = cid) \<and>
                 (\<forall>x\<in>set post. cid < tqi_id x))) \<and>
     (\<exists>ins'. canardTxPop (Some ins) = Some ins' \<and> tx_queue ins' = tl (tx_queue ins)) \<and>
     (\<forall>f head rest. tx_queue ins = head # rest \<longrightarrow>
        canardTxPeek (Some ins) (Some f) =
          (Inr 1, Some (f\<lparr>fr_timestamp_usec := tqi_deadline_usec head,
                          fr_extended_can_id := tqi_id head,
                          fr_payload_size := tqi_payload_size head,
                          fr_payload := Some (tqi_payload head)\<rparr>)))"
proof -
  from tx_calls_sorted [OF assms, of calls]
  obtain ins where r: "tx_calls ins0 calls = Some ins" and s: "queue_sorted (tx_queue ins)"
    by blast
  have "\<forall>f head rest. tx_queue ins = head # rest \<longrightarrow>
        canardTxPeek (Some ins) (Some f) =
          (Inr 1, Some (f\<lparr>fr_timestamp_usec := tqi_deadline_usec head,
                          fr_extended_can_id := tqi_id head,
                          fr_payload_size := tqi_payload_size head,
                          fr_payload := Some (tqi_payload head)\<rparr>))"
    by (simp add: canardTxPeek_def)
  with r s canardTxPush_stable [OF s] canardTxPop_queue [of ins] show ?thesis
    by blast
qed

theorem tx_queue_sorted_stable_witness:
  "queue_sorted (tx_queue example_instance)
   \<and> (\<exists>ins. tx_calls example_instance
               [Push (example_message 4 2 [0xA]), Push (example_message 4 1 [0xB]),
                Push (example_message 4 2 [0xC])] = Some ins
            \<and> queue_sorted (tx_queue ins)
            \<and> map (\<lambda>x. (tqi_id x, tqi_payload x)) (tx_queue ins)
                = [(0x1000012A, [0xB, 0xE1]), (0x1000022A, [0xA, 0xE1]), (0x1000022A, [0xC, 0xE1])])"
proof -
  let ?calls = "[Push (example_message 4 2 [0xA]), Push (example_message 4 1 [0xB]),
                Push (example_message 4 2 [0xC])]"
  have h: "queue_sorted (tx_queue example_instance)"
    by (simp add: example_instance_def canardInit_def queue_sorted_def)
  have e: "map_option (\<lambda>i. map (\<lambda>x. (tqi_id x, tqi_payload x)) (tx_queue i))
             (tx_calls example_instance ?calls)
           = Some [(0x1000012A, [0xB, 0xE1]), (0x1000022A, [0xA, 0xE1]), (0x1000022A, [0xC, 0xE1])]"
    by code_simp
  from tx_queue_sorted_stable [OF h, of ?calls]
  obtain ins where "tx_calls example_instance ?calls = Some ins" "queue_sorted (tx_queue ins)"
    by blast
  with e h show ?thesis by simp
qed

section \<open>Allocation failure during a multi-frame push\<close>

lemma allocated_blocks_append: "allocated_blocks (xs @ ys) = allocated_blocks xs @ allocated_blocks ys"
  by (induction xs rule: allocated_blocks.induct) simp_all

lemma freed_blocks_append: "freed_blocks (xs @ ys) = freed_blocks xs @ freed_blocks ys"
  by (induction xs rule: freed_blocks.induct) simp_all

lemma failed_allocation_append:
  "failed_allocation (xs @ ys) = (failed_allocation xs \<or> failed_allocation ys)"
  by (induction xs rule: failed_allocation.induct) simp_all

lemma allocateTxQueueItem_logged_cases:
  assumes "memory_allocate ins = logged_allocate allocate"
  obtains (fail) m where
      "allocateTxQueueItem ins cid dl n =
         (None, ins\<lparr>memory := (m, snd (memory ins) @ [Allocated (sizeof_CanardInternalTxQueueItem + n) None])\<rparr>)"
  | (ok) a m where
      "allocateTxQueueItem ins cid dl n =
         (Some \<lparr>tqi_addr = a, tqi_deadline_usec = dl, tqi_payload_size = n, tqi_id = cid, tqi_payload = []\<rparr>,
          ins\<lparr>memory := (m, snd (memory ins) @ [Allocated (sizeof_CanardInternalTxQueueItem + n) (Some a)])\<rparr>)"
proof (cases "allocate (fst (memory ins)) (sizeof_CanardInternalTxQueueItem + n)")
  case (Pair p m)
  show ?thesis
  proof (cases p)
    case None
    with Pair assms show ?thesis
      by (intro fail [of m]) (simp add: allocateTxQueueItem_def logged_allocate_def)
  next
    case (Some a)
    with Pair assms show ?thesis
      by (intro ok [of a m]) (simp add: allocateTxQueueItem_def logged_allocate_def)
  qed
qed

lemma loop_log:
  assumes mtu: "7 \<le> mtu" "mtu \<le> 63"
    and la: "memory_allocate ins = logged_allocate allocate"
  shows "\<exists>out' new tn m' evs.
     pushMultiFrameTransfer_loop mtu dl cid tid psz out chain offset crc sot tg ptr ins
       = Some (out', chain @ new, tn, ins\<lparr>memory := (m', snd (memory ins) @ evs)\<rparr>)
     \<and> allocated_blocks evs = map tqi_addr new \<and> freed_blocks evs = []
     \<and> (failed_allocation evs \<longrightarrow> tn)
     \<and> (tn \<longrightarrow> failed_allocation evs \<or> (chain = [] \<and> \<not> offset < psz + 2))"
  using la
proof (induction "psz + 2 - offset" arbitrary: out chain offset crc sot tg ptr ins rule: less_induct)
  case less
  note la = less.prems
  show ?case
  proof (cases "offset < psz + 2")
    case False
    have "pushMultiFrameTransfer_loop mtu dl cid tid psz out chain offset crc sot tg ptr ins
            = Some (out, chain @ [], chain = [], ins\<lparr>memory := (fst (memory ins), snd (memory ins) @ [])\<rparr>)"
      using loop_exit [OF False] by simp
    moreover have "allocated_blocks [] = map tqi_addr []" "freed_blocks [] = []"
      "failed_allocation [] \<longrightarrow> chain = []"
      "chain = [] \<longrightarrow> failed_allocation [] \<or> (chain = [] \<and> \<not> offset < psz + 2)"
      using False by simp_all
    ultimately show ?thesis by blast
  next
    case True
    show ?thesis
    proof (cases rule: allocateTxQueueItem_logged_cases
                         [OF la, of cid dl "next_frame_size mtu psz offset", case_names fail ok])
      case (fail m)
      let ?e = "Allocated (sizeof_CanardInternalTxQueueItem + next_frame_size mtu psz offset) None"
      have "pushMultiFrameTransfer_loop mtu dl cid tid psz out chain offset crc sot tg ptr ins
            = Some (out + 1, chain @ [], True, ins\<lparr>memory := (m, snd (memory ins) @ [?e])\<rparr>)"
        using loop_fail [OF True fail] by simp
      moreover have "allocated_blocks [?e] = map tqi_addr []" "freed_blocks [?e] = []"
        "failed_allocation [?e] \<longrightarrow> True"
        "True \<longrightarrow> failed_allocation [?e] \<or> (chain = [] \<and> \<not> offset < psz + 2)"
        by simp_all
      ultimately show ?thesis by blast
    next
      case (ok a m)
      let ?e = "Allocated (sizeof_CanardInternalTxQueueItem + next_frame_size mtu psz offset) (Some a)"
      let ?tqi = "\<lparr>tqi_addr = a, tqi_deadline_usec = dl,
                    tqi_payload_size = next_frame_size mtu psz offset, tqi_id = cid, tqi_payload = []\<rparr>"
      let ?ins1 = "ins\<lparr>memory := (m, snd (memory ins) @ [?e])\<rparr>"
      from frame_progress [OF mtu True, of tid crc sot tg ptr]
      obtain buf offset1 crc1 ptr1 where
        fr: "pushMultiFrameTransfer_frame (next_frame_size mtu psz offset) tid psz offset crc sot tg ptr
               = (buf, offset1, crc1, ptr1)"
        and pr: "offset < offset1" "offset1 \<le> psz + 2"
        by blast
      from pr True have dec: "psz + 2 - offset1 < psz + 2 - offset" by simp
      from la have la1: "memory_allocate ?ins1 = logged_allocate allocate" by simp
      from less.hyps [OF dec la1, of "out + 1" "chain @ [?tqi\<lparr>tqi_payload := buf\<rparr>]" crc1 False "\<not> tg" ptr1]
      obtain out' new tn m' evs where
        r: "pushMultiFrameTransfer_loop mtu dl cid tid psz (out + 1) (chain @ [?tqi\<lparr>tqi_payload := buf\<rparr>])
              offset1 crc1 False (\<not> tg) ptr1 ?ins1
            = Some (out', (chain @ [?tqi\<lparr>tqi_payload := buf\<rparr>]) @ new, tn,
                    ?ins1\<lparr>memory := (m', snd (memory ?ins1) @ evs)\<rparr>)"
        and al: "allocated_blocks evs = map tqi_addr new" and fb: "freed_blocks evs = []"
        and f1: "failed_allocation evs \<longrightarrow> tn"
        and f2: "tn \<longrightarrow> failed_allocation evs \<or> (chain @ [?tqi\<lparr>tqi_payload := buf\<rparr>] = [] \<and> \<not> offset1 < psz + 2)"
        by blast
      have "pushMultiFrameTransfer_loop mtu dl cid tid psz out chain offset crc sot tg ptr ins
            = Some (out', chain @ (?tqi\<lparr>tqi_payload := buf\<rparr> # new), tn,
                    ins\<lparr>memory := (m', snd (memory ins) @ (?e # evs))\<rparr>)"
        using loop_step [OF True ok fr] r by simp
      moreover have "allocated_blocks (?e # evs) = map tqi_addr (?tqi\<lparr>tqi_payload := buf\<rparr> # new)"
        using al by simp
      moreover have "freed_blocks (?e # evs) = []" using fb by simp
      moreover have "failed_allocation (?e # evs) \<longrightarrow> tn" using f1 by simp
      moreover have "tn \<longrightarrow> failed_allocation (?e # evs) \<or> (chain = [] \<and> \<not> offset < psz + 2)"
        using f2 by simp
      ultimately show ?thesis by blast
    qed
  qed
qed

lemma pushMultiFrameTransfer_free_log:
  assumes "memory_free ins = logged_free free"
  shows "\<exists>m. pushMultiFrameTransfer_free ins chain
           = ins\<lparr>memory := (m, snd (memory ins) @ map (\<lambda>x. Freed (Some (tqi_addr x))) chain)\<rparr>"
  using assms
proof (induction chain arbitrary: ins)
  case Nil
  have "ins = ins\<lparr>memory := (fst (memory ins), snd (memory ins) @ [])\<rparr>" by simp
  then show ?case by (simp del: append_Nil2) blast
next
  case (Cons h t)
  let ?i = "ins\<lparr>memory := (free (fst (memory ins)) (Some (tqi_addr h)), snd (memory ins) @ [Freed (Some (tqi_addr h))])\<rparr>"
  have s: "ins\<lparr>memory := memory_free ins (memory ins) (Some (tqi_addr h))\<rparr> = ?i"
    using Cons.prems by (simp add: logged_free_def)
  have "memory_free ?i = logged_free free" using Cons.prems by simp
  from Cons.IH [OF this] obtain m where
    "pushMultiFrameTransfer_free ?i t = ?i\<lparr>memory := (m, snd (memory ?i) @ map (\<lambda>x. Freed (Some (tqi_addr x))) t)\<rparr>"
    by blast
  then have "pushMultiFrameTransfer_free ins (h # t)
               = ins\<lparr>memory := (m, snd (memory ins) @ map (\<lambda>x. Freed (Some (tqi_addr x))) (h # t))\<rparr>"
    unfolding pushMultiFrameTransfer_free.simps s by simp
  then show ?case by blast
qed

lemma freed_blocks_map_Freed: "freed_blocks (map (\<lambda>x. Freed (Some (tqi_addr x))) chain) = map tqi_addr chain"
  by (induction chain) simp_all

lemma allocated_blocks_map_Freed: "allocated_blocks (map (\<lambda>x. Freed (Some (tqi_addr x))) chain) = []"
  by (induction chain) simp_all

lemma failed_allocation_map_Freed: "\<not> failed_allocation (map (\<lambda>x. Freed (Some (tqi_addr x))) chain)"
  by (induction chain) simp_all

lemma pushMultiFrameTransfer_log:
  assumes mtu: "7 \<le> mtu" "mtu \<le> 63"
    and la: "memory_allocate ins = logged_allocate allocate"
    and lf: "memory_free ins = logged_free free"
  shows "\<exists>r ins' evs.
     pushMultiFrameTransfer ins mtu dl cid tid psz payload = Some (r, ins')
     \<and> snd (memory ins') = snd (memory ins) @ evs
     \<and> (failed_allocation evs \<longleftrightarrow> r = Inl CANARD_ERROR_OUT_OF_MEMORY)
     \<and> (failed_allocation evs \<longrightarrow>
          tx_queue ins' = tx_queue ins \<and> freed_blocks evs = allocated_blocks evs \<and>
          ins' = ins\<lparr>memory := memory ins'\<rparr>)"
proof -
  from loop_log [OF mtu la, of dl cid tid psz 0 "[]" 0 "crcAdd CRC_INITIAL psz (bytes_at payload)" True True
         "bytes_at payload"]
  obtain out' new tn m' evs where
    r: "pushMultiFrameTransfer_loop mtu dl cid tid psz 0 [] 0 (crcAdd CRC_INITIAL psz (bytes_at payload)) True True
          (bytes_at payload) ins = Some (out', new, tn, ins\<lparr>memory := (m', snd (memory ins) @ evs)\<rparr>)"
    and al: "allocated_blocks evs = map tqi_addr new" and fb: "freed_blocks evs = []"
    and tn: "tn \<longleftrightarrow> failed_allocation evs"
    by auto
  let ?ins1 = "ins\<lparr>memory := (m', snd (memory ins) @ evs)\<rparr>"
  show ?thesis
  proof (cases tn)
    case True
    from lf have "memory_free ?ins1 = logged_free free" by simp
    from pushMultiFrameTransfer_free_log [OF this, of new]
    obtain m where
      f: "pushMultiFrameTransfer_free ?ins1 new
            = ins\<lparr>memory := (m, snd (memory ins) @ evs @ map (\<lambda>x. Freed (Some (tqi_addr x))) new)\<rparr>"
      by auto
    let ?evs = "evs @ map (\<lambda>x. Freed (Some (tqi_addr x))) new"
    let ?ins' = "ins\<lparr>memory := (m, snd (memory ins) @ ?evs)\<rparr>"
    have 1: "pushMultiFrameTransfer ins mtu dl cid tid psz payload
               = Some (Inl CANARD_ERROR_OUT_OF_MEMORY, ?ins')"
      using r True f by (simp add: pushMultiFrameTransfer_def)
    have 2: "snd (memory ?ins') = snd (memory ins) @ ?evs" by simp
    have 3: "failed_allocation ?evs \<longleftrightarrow> Inl CANARD_ERROR_OUT_OF_MEMORY = (Inl CANARD_ERROR_OUT_OF_MEMORY :: CanardError + nat)"
      using True tn by (simp add: failed_allocation_append)
    have 4: "tx_queue ?ins' = tx_queue ins" by simp
    have 5: "freed_blocks ?evs = allocated_blocks ?evs"
      using al fb by (simp add: freed_blocks_append allocated_blocks_append
          freed_blocks_map_Freed allocated_blocks_map_Freed)
    have 6: "?ins' = ins\<lparr>memory := memory ?ins'\<rparr>" by simp
    from 1 2 3 4 5 6 show ?thesis by blast
  next
    case False
    let ?ins' = "?ins1\<lparr>tx_queue := insert_after (findTxQueueSupremum ?ins1 cid) new (tx_queue ?ins1)\<rparr>"
    have 1: "pushMultiFrameTransfer ins mtu dl cid tid psz payload = Some (Inr out', ?ins')"
      using r False by (simp add: pushMultiFrameTransfer_def Let_def)
    have 2: "snd (memory ?ins') = snd (memory ins) @ evs" by simp
    have 3: "failed_allocation evs \<longleftrightarrow> Inr out' = (Inl CANARD_ERROR_OUT_OF_MEMORY :: CanardError + nat)"
      using False tn by simp
    have 4: "\<not> failed_allocation evs" using False tn by simp
    from 1 2 3 4 show ?thesis by blast
  qed
qed

text \<open>
  Claim C3.  Take any allocator and record its calls.  For a transfer that
  \<^verbatim>\<open>canardTxPush\<close> accepts and that needs more than one frame, the call returns; it
  returns the out-of-memory error exactly when one of its allocations failed; and
  then the queue is as it was before the call, the blocks handed to the free function
  are exactly the blocks that were allocated during the call (so as many frees as
  successful allocations), and nothing of the instance but the allocator's memory has
  changed.
\<close>

theorem canardTxPush_out_of_memory:
  assumes la: "memory_allocate ins = logged_allocate allocate"
      and lf: "memory_free ins = logged_free free"
      and cid: "makeCANID tr (node_id ins) (getPresentationLayerMTU ins) = Inr cid"
      and multi: "getPresentationLayerMTU ins < tr_payload_size tr"
      and pl: "tr_payload tr \<noteq> None"
  shows "\<exists>r ins' evs.
     canardTxPush (Some ins) (Some tr) = Some (r, Some ins')
     \<and> snd (memory ins') = snd (memory ins) @ evs
     \<and> (failed_allocation evs \<longleftrightarrow> r = Inl CANARD_ERROR_OUT_OF_MEMORY)
     \<and> (failed_allocation evs \<longrightarrow>
          tx_queue ins' = tx_queue ins \<and> freed_blocks evs = allocated_blocks evs \<and>
          ins' = ins\<lparr>memory := memory ins'\<rparr>)"
proof -
  from getPresentationLayerMTU_range [of ins]
  have mtu: "7 \<le> getPresentationLayerMTU ins" "getPresentationLayerMTU ins \<le> 63" by simp_all
  from pushMultiFrameTransfer_log [OF mtu la lf, of "tr_timestamp_usec tr" cid "tr_transfer_id tr"
         "tr_payload_size tr" "tr_payload tr"]
  obtain r ins' evs where
    p: "pushMultiFrameTransfer ins (getPresentationLayerMTU ins) (tr_timestamp_usec tr) cid
          (tr_transfer_id tr) (tr_payload_size tr) (tr_payload tr) = Some (r, ins')"
    and rest: "snd (memory ins') = snd (memory ins) @ evs"
       "failed_allocation evs \<longleftrightarrow> r = Inl CANARD_ERROR_OUT_OF_MEMORY"
       "failed_allocation evs \<longrightarrow>
          tx_queue ins' = tx_queue ins \<and> freed_blocks evs = allocated_blocks evs \<and>
          ins' = ins\<lparr>memory := memory ins'\<rparr>"
    by blast
  have "canardTxPush (Some ins) (Some tr) = Some (r, Some ins')"
    using cid multi pl p by (simp add: canardTxPush_def Let_def)
  with rest show ?thesis by blast
qed

theorem canardTxPush_out_of_memory_witness:
  "\<exists>ins'. canardTxPush (Some (logged_example_instance 1))
             (Some (example_message 4 2 (replicate 15 0x5A)))
           = Some (Inl CANARD_ERROR_OUT_OF_MEMORY, Some ins')
         \<and> tx_queue ins' = tx_queue (logged_example_instance 1)
         \<and> snd (memory ins') = [Allocated 40 (Some 4096), Allocated 40 None, Freed (Some 4096)]
         \<and> freed_blocks (snd (memory ins')) = allocated_blocks (snd (memory ins'))"
proof -
  let ?I = "logged_example_instance 1"
  let ?T = "example_message 4 2 (replicate 15 0x5A)"
  have la: "memory_allocate ?I = logged_allocate example_allocate"
    and lf: "memory_free ?I = logged_free example_free"
    by (simp_all add: logged_example_instance_def canardInit_def)
  have m: "getPresentationLayerMTU ?I = 7"
    by (simp add: getPresentationLayerMTU_def logged_example_instance_def canardInit_def
        CANARD_MTU_CAN_CLASSIC_def CanardCANLengthToDLC_def CanardCANDLCToLength_def)
  have cid: "makeCANID ?T (node_id ?I) (getPresentationLayerMTU ?I) = Inr 0x1000022A"
    by code_simp
  have multi: "getPresentationLayerMTU ?I < tr_payload_size ?T"
    unfolding m by (simp add: example_message_def)
  have pl: "tr_payload ?T \<noteq> None"
    by (simp add: example_message_def)
  have e: "map_option (\<lambda>(r, i'). (r, map_option (\<lambda>i'. snd (memory i')) i'))
             (canardTxPush (Some ?I) (Some ?T))
           = Some (Inl CANARD_ERROR_OUT_OF_MEMORY,
                   Some [Allocated 40 (Some 4096), Allocated 40 None, Freed (Some 4096)])"
    by code_simp
  have l0: "snd (memory ?I) = []"
    by (simp add: logged_example_instance_def canardInit_def)
  from canardTxPush_out_of_memory [OF la lf cid multi pl]
  obtain r ins' evs where
    p: "canardTxPush (Some ?I) (Some ?T) = Some (r, Some ins')"
    and lg: "snd (memory ins') = snd (memory ?I) @ evs"
    and oom: "failed_allocation evs \<longleftrightarrow> r = Inl CANARD_ERROR_OUT_OF_MEMORY"
    and eff: "failed_allocation evs \<longrightarrow>
          tx_queue ins' = tx_queue ?I \<and> freed_blocks evs = allocated_blocks evs \<and>
          ins' = ?I\<lparr>memory := memory ins'\<rparr>"
    by blast
  from e p have r: "r = Inl CANARD_ERROR_OUT_OF_MEMORY"
    and l: "snd (memory ins') = [Allocated 40 (Some 4096), Allocated 40 None, Freed (Some 4096)]"
    by simp_all
  from r oom eff lg l0 have "tx_queue ins' = tx_queue ?I"
    "freed_blocks (snd (memory ins')) = allocated_blocks (snd (memory ins'))"
    by simp_all
  with p r l show ?thesis by blast
qed

section \<open>The layout of the frames of a transfer\<close>

lemma frame_final_short:
  assumes mtu: "7 \<le> mtu" "mtu \<le> 63" and off: "offset < psz + 2"
    and fr: "pushMultiFrameTransfer_frame (next_frame_size mtu psz offset) tid psz offset crc sot tg ptr
               = (buf, psz + 2, crc1, ptr1)"
  shows "psz + 2 - offset \<le> mtu"
  using off
proof (cases rule: frame_cases [where mtu = mtu])
  case full
  with mtu fr show ?thesis by (auto simp add: frame_full next_frame_size_full)
next
  case hi
  with fr show ?thesis by (simp add: frame_with_crc_hi next_frame_size_full)
next
  case last
  then show ?thesis by simp
next
  case crc
  with mtu show ?thesis by simp
next
  case lo
  with mtu show ?thesis by simp
qed

lemma frames_started_snoc:
  "frames_started mtu tid (chain @ [x]) \<longleftrightarrow>
     frames_started mtu tid chain \<and> tqi_payload x \<noteq> [] \<and>
     frame_tail x = makeTailByte (chain = []) False (even (length chain)) tid \<and>
     length (tqi_payload x) = Suc mtu \<and> tqi_payload_size x = Suc mtu"
  unfolding frames_started_def
  by (auto simp add: nth_append less_Suc_eq)

lemma stream_complete:
  assumes "offset < psz + 2" and "psz \<le> length bs" and "0 < k \<longrightarrow> offset < psz"
    and "c1 = foldl crcAddByte crc (replicate k PADDING_BYTE)"
  shows "take offset (take psz bs @ [crc_hi crc, crc_lo crc]) @
           drop offset (take psz bs) @ replicate k PADDING_BYTE @ drop (offset - psz) [crc_hi c1, crc_lo c1]
         = take psz bs @ replicate k PADDING_BYTE @ [crc_hi c1, crc_lo c1]"
proof (cases "offset \<le> psz")
  case True
  let ?P = "take psz bs"
  have l: "length ?P = psz" using assms by simp
  have "take offset (?P @ [crc_hi crc, crc_lo crc]) = take offset ?P"
    using True l by simp
  moreover have "drop (offset - psz) [crc_hi c1, crc_lo c1] = [crc_hi c1, crc_lo c1]"
    using True by simp
  moreover have "take offset ?P @ drop offset ?P = ?P"
    by (rule append_take_drop_id)
  ultimately show ?thesis by (simp only: append_assoc [symmetric])
next
  case False
  with assms have o: "offset = Suc psz" and k: "k = 0" by auto
  with assms show ?thesis by simp
qed

lemma loop_content:
  assumes mtu: "7 \<le> mtu" "mtu \<le> 63" and len: "psz \<le> length bs"
  shows "offset < psz + 2 \<Longrightarrow>
     pushMultiFrameTransfer_loop mtu dl cid tid psz out chain offset crc (chain = [])
         (even (length chain)) (drop (min offset psz) bs) ins = Some (out', chain', False, ins') \<Longrightarrow>
     frames_started mtu tid chain \<Longrightarrow>
     concat (map frame_body chain) = take offset (take psz bs @ [crc_hi crc, crc_lo crc]) \<Longrightarrow>
     offset = mtu * length chain \<Longrightarrow>
     frames_complete mtu tid chain' \<and> length chain < length chain' \<and>
     (mtu < psz + 2 - offset \<longrightarrow> length chain + 2 \<le> length chain') \<and>
     mtu * (length chain' - 1) < psz + 2 \<and> psz + 2 \<le> mtu * length chain' \<and>
     tqi_payload_size (last chain') = next_frame_size mtu psz (mtu * (length chain' - 1)) \<and>
     frame_body (last chain') \<noteq> [] \<and>
     (\<exists>k. concat (map frame_body chain') =
            take psz bs @ replicate k PADDING_BYTE @
              [crc_hi (foldl crcAddByte crc (replicate k PADDING_BYTE)),
               crc_lo (foldl crcAddByte crc (replicate k PADDING_BYTE))] \<and>
          (0 < k \<longrightarrow> k + 2 \<le> length (frame_body (last chain'))) \<and>
          length (frame_body (last chain')) = psz + 2 - mtu * (length chain' - 1) + k)"
proof (induction "psz + 2 - offset" arbitrary: out chain offset ins rule: less_induct)
  case less
  note off = less.prems(1) and run = less.prems(2) and started = less.prems(3) and stream = less.prems(4)
    and count = less.prems(5)
  let ?S = "take psz bs @ [crc_hi crc, crc_lo crc]"
  let ?n = "next_frame_size mtu psz offset"
  show ?case
  proof (cases rule: allocateTxQueueItem_cases [of ins ?n cid dl])
    case (fail m)
    from loop_fail [OF off fail(2)] run show ?thesis by simp
  next
    case (ok a m)
    from frame_content [OF mtu off len, of tid crc "chain = []" "even (length chain)"]
    obtain body offset1 crc1 where
      fr: "pushMultiFrameTransfer_frame ?n tid psz offset crc (chain = []) (even (length chain))
             (drop (min offset psz) bs)
           = (body @ [makeTailByte (chain = []) (psz + 2 \<le> offset1) (even (length chain)) tid],
              offset1, crc1, drop (min offset1 psz) bs)"
      and sz: "Suc (length body) = ?n"
      and pr: "offset < offset1" "offset1 \<le> psz + 2"
      and cont: "offset1 < psz + 2 \<longrightarrow> crc1 = crc \<and> ?n = Suc mtu \<and>
                   body = take (offset1 - offset) (drop offset ?S)"
      and fin: "offset1 = psz + 2 \<longrightarrow>
                 (\<exists>k. crc1 = foldl crcAddByte crc (replicate k PADDING_BYTE) \<and>
                      body = drop offset (take psz bs) @ replicate k PADDING_BYTE @
                               drop (offset - psz) [crc_hi crc1, crc_lo crc1] \<and>
                      (0 < k \<longrightarrow> offset < psz))"
      by blast
    define tail where "tail = makeTailByte (chain = []) (psz + 2 \<le> offset1) (even (length chain)) tid"
    define x where "x = \<lparr>tqi_addr = a, tqi_deadline_usec = dl, tqi_payload_size = ?n, tqi_id = cid,
                          tqi_payload = body @ [tail]\<rparr>"
    have step: "pushMultiFrameTransfer_loop mtu dl cid tid psz out chain offset crc (chain = [])
                  (even (length chain)) (drop (min offset psz) bs) ins
                = pushMultiFrameTransfer_loop mtu dl cid tid psz (out + 1) (chain @ [x]) offset1 crc1
                    False (\<not> even (length chain)) (drop (min offset1 psz) bs) (ins\<lparr>memory := m\<rparr>)"
      using loop_step [OF off ok(2) fr] by (simp add: x_def tail_def)
    have xb: "frame_body x = body" and xt: "frame_tail x = tail"
      and xp: "tqi_payload x \<noteq> []" and xl: "length (tqi_payload x) = ?n"
      and xs: "tqi_payload_size x = ?n"
      using sz by (simp_all add: frame_body_def frame_tail_def x_def)
    have cc: "concat (map frame_body (chain @ [x])) = concat (map frame_body chain) @ body"
      by (simp add: xb)
    have sn: "chain @ [x] \<noteq> []" "(chain @ [x] = []) = False"
      "even (length (chain @ [x])) = (\<not> even (length chain))"
      "butlast (chain @ [x]) = chain" "last (chain @ [x]) = x"
      "(length (chain @ [x]) = 1) = (chain = [])" "odd (length (chain @ [x])) = even (length chain)"
      by simp_all
    show ?thesis
    proof (cases "offset1 < psz + 2")
      case True
      with cont have c1: "crc1 = crc" and n: "?n = Suc mtu"
        and b: "body = take (offset1 - offset) (drop offset ?S)" by simp_all
      from True have t: "tail = makeTailByte (chain = []) False (even (length chain)) tid"
        by (simp add: tail_def)
      from pr True have dec: "psz + 2 - offset1 < psz + 2 - offset" by simp
      have run1: "pushMultiFrameTransfer_loop mtu dl cid tid psz (out + 1) (chain @ [x]) offset1 crc
                    (chain @ [x] = []) (even (length (chain @ [x]))) (drop (min offset1 psz) bs)
                    (ins\<lparr>memory := m\<rparr>) = Some (out', chain', False, ins')"
        unfolding sn using run step c1 by simp
      have started1: "frames_started mtu tid (chain @ [x])"
        unfolding frames_started_snoc using started xp xt t xl xs n by simp
      have "offset + (offset1 - offset) = offset1" using pr by simp
      with take_add [of offset "offset1 - offset" ?S]
      have "take offset1 ?S = take offset ?S @ take (offset1 - offset) (drop offset ?S)"
        by simp
      then have stream1: "concat (map frame_body (chain @ [x])) = take offset1 ?S"
        unfolding cc stream b by simp
      have "length body = mtu" using sz n by simp
      moreover have "length body = offset1 - offset"
        unfolding b using pr len by simp
      ultimately have count1: "offset1 = mtu * length (chain @ [x])"
        using pr count by simp
      note ih = less.hyps [OF dec True run1 started1 stream1 count1]
      from ih have 1: "frames_complete mtu tid chain'" by blast
      from ih have "length (chain @ [x]) < length chain'" by blast
      then have 2: "length chain < length chain'"
        and 3: "mtu < psz + 2 - offset \<longrightarrow> length chain + 2 \<le> length chain'"
        by simp_all
      from ih have rest: "mtu * (length chain' - 1) < psz + 2 \<and> psz + 2 \<le> mtu * length chain' \<and>
         tqi_payload_size (last chain') = next_frame_size mtu psz (mtu * (length chain' - 1)) \<and>
         frame_body (last chain') \<noteq> [] \<and>
         (\<exists>k. concat (map frame_body chain') =
            take psz bs @ replicate k PADDING_BYTE @
              [crc_hi (foldl crcAddByte crc (replicate k PADDING_BYTE)),
               crc_lo (foldl crcAddByte crc (replicate k PADDING_BYTE))] \<and>
          (0 < k \<longrightarrow> k + 2 \<le> length (frame_body (last chain'))) \<and>
          length (frame_body (last chain')) = psz + 2 - mtu * (length chain' - 1) + k)"
        by blast
      from 1 2 3 rest show ?thesis by blast
    next
      case False
      with pr have o1: "offset1 = psz + 2" by simp
      with fin obtain k where
        ck: "crc1 = foldl crcAddByte crc (replicate k PADDING_BYTE)"
        and bk: "body = drop offset (take psz bs) @ replicate k PADDING_BYTE @
                               drop (offset - psz) [crc_hi crc1, crc_lo crc1]"
        and kk: "0 < k \<longrightarrow> offset < psz"
        by blast
      from o1 have t: "tail = makeTailByte (chain = []) True (even (length chain)) tid"
        by (simp add: tail_def)
      from run step loop_exit [of offset1 psz mtu dl cid tid "out + 1" "chain @ [x]" crc1 False
              "\<not> even (length chain)" "drop (min offset1 psz) bs" "ins\<lparr>memory := m\<rparr>"] o1
      have ch: "chain' = chain @ [x]" by simp
      have short: "psz + 2 - offset \<le> mtu"
        using frame_final_short [OF mtu off fr [unfolded o1]] .
      have 1: "frames_complete mtu tid chain'"
        unfolding ch frames_complete_def sn using started xp xt t xl xs by simp
      have 2: "length chain < length chain'" unfolding ch by simp
      have 3: "mtu < psz + 2 - offset \<longrightarrow> length chain + 2 \<le> length chain'"
        using short by simp
      have "concat (map frame_body chain') = take offset ?S @ body"
        unfolding ch cc stream ..
      also have "\<dots> = take psz bs @ replicate k PADDING_BYTE @ [crc_hi crc1, crc_lo crc1]"
        unfolding bk by (rule stream_complete [OF off len kk ck])
      finally have 4: "concat (map frame_body chain') =
            take psz bs @ replicate k PADDING_BYTE @
              [crc_hi (foldl crcAddByte crc (replicate k PADDING_BYTE)),
               crc_lo (foldl crcAddByte crc (replicate k PADDING_BYTE))]"
        unfolding ck .
      have lb: "length body = length (drop offset (take psz bs)) + k + length (drop (offset - psz) [crc_hi crc1, crc_lo crc1])"
        unfolding bk by simp
      with kk have "0 < k \<longrightarrow> k + 2 \<le> length body" by auto
      then have 5: "0 < k \<longrightarrow> k + 2 \<le> length (frame_body (last chain'))"
        unfolding ch sn xb .
      have lc: "length chain' - 1 = length chain" unfolding ch by simp
      have 6: "mtu * (length chain' - 1) < psz + 2"
        unfolding lc using off count by simp
      have 7: "psz + 2 \<le> mtu * length chain'"
        unfolding ch using short count by simp
      have 8: "tqi_payload_size (last chain') = next_frame_size mtu psz (mtu * (length chain' - 1))"
        unfolding lc ch sn xs using count by simp
      from lb kk off len have lk: "length body = psz + 2 - offset + k"
        by (cases "offset \<le> psz") auto
      with off have "body \<noteq> []" by auto
      then have 9: "frame_body (last chain') \<noteq> []"
        unfolding ch sn xb .
      have 10: "length (frame_body (last chain')) = psz + 2 - mtu * (length chain' - 1) + k"
        unfolding lc unfolding ch sn xb using lk count by simp
      from 4 5 10 have ex: "\<exists>k. concat (map frame_body chain') =
            take psz bs @ replicate k PADDING_BYTE @
              [crc_hi (foldl crcAddByte crc (replicate k PADDING_BYTE)),
               crc_lo (foldl crcAddByte crc (replicate k PADDING_BYTE))] \<and>
          (0 < k \<longrightarrow> k + 2 \<le> length (frame_body (last chain'))) \<and>
          length (frame_body (last chain')) = psz + 2 - mtu * (length chain' - 1) + k"
        by blast
      from 1 2 3 6 7 8 9 ex show ?thesis by (intro conjI)
    qed
  qed
qed

lemma tail_constants:
  "TAIL_START_OF_TRANSFER = 2 ^ 7" "TAIL_END_OF_TRANSFER = 2 ^ 6" "TAIL_TOGGLE = 2 ^ 5"
  "CANARD_TRANSFER_ID_MAX = mask 5"
  by (simp_all add: TAIL_START_OF_TRANSFER_def TAIL_END_OF_TRANSFER_def TAIL_TOGGLE_def
      CANARD_TRANSFER_ID_MAX_def mask_eq_exp_minus_1)

lemma flag_bit: "bit (if b then (2::8 word) ^ n else 0) m \<longleftrightarrow> b \<and> m = n \<and> n < 8"
  by (auto simp add: bit_simps)

lemma makeTailByte_bit:
  "bit (makeTailByte s e t tid) n \<longleftrightarrow>
     (n = 7 \<and> s) \<or> (n = 6 \<and> e) \<or> (n = 5 \<and> t) \<or> (n < 5 \<and> bit tid n)"
  unfolding makeTailByte_def tail_constants
  by (simp only: bit_or_iff bit_and_iff flag_bit bit_mask_iff) (auto simp add: bit_simps)

lemma tail_start_of_transfer_make:
  "tail_start_of_transfer (makeTailByte s e t tid) = s"
proof -
  have "(makeTailByte s e t tid AND 2 ^ 7 = 0) = (\<not> bit (makeTailByte s e t tid) 7)"
    by (rule and_exp_eq_0_iff_not_bit)
  then show ?thesis
    unfolding tail_start_of_transfer_def tail_constants by (simp only: makeTailByte_bit) simp
qed

lemma tail_end_of_transfer_make:
  "tail_end_of_transfer (makeTailByte s e t tid) = e"
proof -
  have "(makeTailByte s e t tid AND 2 ^ 6 = 0) = (\<not> bit (makeTailByte s e t tid) 6)"
    by (rule and_exp_eq_0_iff_not_bit)
  then show ?thesis
    unfolding tail_end_of_transfer_def tail_constants by (simp only: makeTailByte_bit) simp
qed

lemma tail_toggle_make:
  "tail_toggle (makeTailByte s e t tid) = t"
proof -
  have "(makeTailByte s e t tid AND 2 ^ 5 = 0) = (\<not> bit (makeTailByte s e t tid) 5)"
    by (rule and_exp_eq_0_iff_not_bit)
  then show ?thesis
    unfolding tail_toggle_def tail_constants by (simp only: makeTailByte_bit) simp
qed

lemma tail_transfer_id_make:
  "tail_transfer_id (makeTailByte s e t tid) = tid AND CANARD_TRANSFER_ID_MAX"
  unfolding tail_transfer_id_def tail_constants
  by (rule bit_word_eqI) (auto simp add: bit_and_iff makeTailByte_bit bit_mask_iff)

lemma frames_complete_nth:
  assumes "frames_complete mtu tid chain" and "i < length chain"
  shows "tqi_payload (chain ! i) \<noteq> [] \<and>
         length (tqi_payload (chain ! i)) = tqi_payload_size (chain ! i) \<and>
         frame_tail (chain ! i) = makeTailByte (i = 0) (Suc i = length chain) (even i) tid \<and>
         (Suc i < length chain \<longrightarrow> length (tqi_payload (chain ! i)) = Suc mtu)"
proof (cases "Suc i = length chain")
  case True
  from assms(1) have ne: "chain \<noteq> []" by (simp add: frames_complete_def)
  from True have "i = length chain - 1" by simp
  with ne have l: "chain ! i = last chain" by (simp add: last_conv_nth)
  have "(length chain = 1) = (i = 0)" "odd (length chain) = even i"
    using True [symmetric] by simp_all
  with assms(1) True show ?thesis unfolding l frames_complete_def by simp
next
  case False
  with assms(2) have lt: "i < length (butlast chain)" by simp
  then have n: "butlast chain ! i = chain ! i" by (simp add: nth_butlast)
  from assms(1) have "frames_started mtu tid (butlast chain)" by (simp add: frames_complete_def)
  with lt n False show ?thesis unfolding frames_started_def by auto
qed

lemma pushMultiFrameTransfer_layout:
  assumes mtu: "7 \<le> mtu" "mtu \<le> 63" and len: "psz \<le> length bs" and multi: "mtu < psz"
    and run: "pushMultiFrameTransfer ins mtu dl cid tid psz (Some bs) = Some (Inr n, ins')"
  shows "\<exists>chain.
           tx_queue ins' = takeWhile (\<lambda>x. tqi_id x \<le> cid) (tx_queue ins) @ chain @
                           dropWhile (\<lambda>x. tqi_id x \<le> cid) (tx_queue ins) \<and>
           length chain = n \<and> 2 \<le> n \<and> frames_complete mtu tid chain \<and>
           mtu * (n - 1) < psz + 2 \<and> psz + 2 \<le> mtu * n \<and>
           tqi_payload_size (last chain) = next_frame_size mtu psz (mtu * (n - 1)) \<and>
           frame_body (last chain) \<noteq> [] \<and>
           (\<exists>k. concat (map frame_body chain) =
                  take psz bs @ replicate k PADDING_BYTE @
                    [crc_hi (crcAdd CRC_INITIAL (psz + k) (take psz bs @ replicate k PADDING_BYTE)),
                     crc_lo (crcAdd CRC_INITIAL (psz + k) (take psz bs @ replicate k PADDING_BYTE))] \<and>
                (0 < k \<longrightarrow> k + 2 \<le> length (frame_body (last chain))) \<and>
                length (frame_body (last chain)) = psz + 2 - mtu * (n - 1) + k)"
proof -
  let ?crc = "crcAdd CRC_INITIAL psz bs"
  from loop_structure [OF mtu, of dl cid tid psz 0 "[]" 0 ?crc True True bs ins]
  obtain out' new tn m' where
    r: "pushMultiFrameTransfer_loop mtu dl cid tid psz 0 [] 0 ?crc True True bs ins
          = Some (out', new, tn, ins\<lparr>memory := m'\<rparr>)"
    and cnt: "\<not> tn \<longrightarrow> out' = length new \<and> new \<noteq> []"
    by auto
  from run r have tn: "\<not> tn"
    by (auto simp add: pushMultiFrameTransfer_def bytes_at_def split: if_splits)
  with cnt have c: "out' = length new" by simp
  have q: "tx_queue (ins\<lparr>memory := m'\<rparr>) = tx_queue ins" by simp
  from run r tn c insert_after_supremum [of "ins\<lparr>memory := m'\<rparr>" cid new]
  have n: "n = length new"
    and q': "tx_queue ins' = takeWhile (\<lambda>x. tqi_id x \<le> cid) (tx_queue ins) @ new @
                           dropWhile (\<lambda>x. tqi_id x \<le> cid) (tx_queue ins)"
    unfolding q by (auto simp add: pushMultiFrameTransfer_def bytes_at_def Let_def)
  have r0: "pushMultiFrameTransfer_loop mtu dl cid tid psz 0 [] 0 ?crc ([] = [])
               (even (length ([] :: CanardInternalTxQueueItem list))) (drop (min 0 psz) bs) ins
             = Some (out', new, False, ins\<lparr>memory := m'\<rparr>)"
    using r tn by simp
  have s0: "frames_started mtu tid []" by (simp add: frames_started_def)
  have c0: "concat (map frame_body []) = take 0 (take psz bs @ [crc_hi ?crc, crc_lo ?crc])" by simp
  have n0: "0 = mtu * length ([] :: CanardInternalTxQueueItem list)" by simp
  from loop_content [OF mtu len _ r0 s0 c0 n0] multi
  obtain k where
    fc: "frames_complete mtu tid new" and two: "2 \<le> length new"
    and lo: "mtu * (length new - 1) < psz + 2" and hi: "psz + 2 \<le> mtu * length new"
    and sz: "tqi_payload_size (last new) = next_frame_size mtu psz (mtu * (length new - 1))"
    and ne: "frame_body (last new) \<noteq> []"
    and st: "concat (map frame_body new) =
            take psz bs @ replicate k PADDING_BYTE @
              [crc_hi (foldl crcAddByte ?crc (replicate k PADDING_BYTE)),
               crc_lo (foldl crcAddByte ?crc (replicate k PADDING_BYTE))]"
    and pad: "0 < k \<longrightarrow> k + 2 \<le> length (frame_body (last new))"
    and lk: "length (frame_body (last new)) = psz + 2 - mtu * (length new - 1) + k"
    by auto
  have "length (take psz bs @ replicate k PADDING_BYTE) = psz + k" using len by simp
  with crcAdd_all [of CRC_INITIAL "take psz bs @ replicate k PADDING_BYTE"]
  have "crcAdd CRC_INITIAL (psz + k) (take psz bs @ replicate k PADDING_BYTE)
          = foldl crcAddByte (foldl crcAddByte CRC_INITIAL (take psz bs)) (replicate k PADDING_BYTE)"
    by simp
  also have "foldl crcAddByte CRC_INITIAL (take psz bs) = ?crc"
    using crcAdd_foldl [OF len, of CRC_INITIAL] by simp
  finally have e: "foldl crcAddByte ?crc (replicate k PADDING_BYTE)
                     = crcAdd CRC_INITIAL (psz + k) (take psz bs @ replicate k PADDING_BYTE)"
    by simp
  from st pad lk have ex: "\<exists>k. concat (map frame_body new) =
                  take psz bs @ replicate k PADDING_BYTE @
                    [crc_hi (crcAdd CRC_INITIAL (psz + k) (take psz bs @ replicate k PADDING_BYTE)),
                     crc_lo (crcAdd CRC_INITIAL (psz + k) (take psz bs @ replicate k PADDING_BYTE))] \<and>
                (0 < k \<longrightarrow> k + 2 \<le> length (frame_body (last new))) \<and>
                length (frame_body (last new)) = psz + 2 - mtu * (length new - 1) + k"
    unfolding e by blast
  show ?thesis
    apply (rule exI [where x = new])
    unfolding n
    apply (intro conjI)
            apply (rule q')
           apply (rule refl)
          apply (rule two)
         apply (rule fc)
        apply (rule lo)
       apply (rule hi)
      apply (rule sz)
     apply (rule ne)
    apply (rule ex)
    done
qed

lemma tail_fields:
  assumes "frame_tail x = makeTailByte s e t tid"
  shows "tail_toggle (frame_tail x) = t \<and> tail_start_of_transfer (frame_tail x) = s \<and>
         tail_end_of_transfer (frame_tail x) = e \<and>
         tail_transfer_id (frame_tail x) = tid AND CANARD_TRANSFER_ID_MAX"
  unfolding assms
  by (simp only: tail_toggle_make tail_start_of_transfer_make tail_end_of_transfer_make
      tail_transfer_id_make simp_thms)

lemma last_of_stream:
  assumes "chain \<noteq> []" and "frame_body (last chain) \<noteq> []"
    and "concat (map frame_body chain) = xs @ [h, l]"
  shows "last (frame_body (last chain)) = l"
proof -
  have "concat (map frame_body (butlast chain @ [last chain]))
          = concat (map frame_body (butlast chain)) @ frame_body (last chain)"
    by simp
  then have "concat (map frame_body chain)
               = concat (map frame_body (butlast chain)) @ frame_body (last chain)"
    unfolding append_butlast_last_id [OF assms(1)] .
  with assms(2) have "last (concat (map frame_body chain)) = last (frame_body (last chain))"
    by simp
  with assms(3) show ?thesis by simp
qed

text \<open>
  Claim C4.  Let \<^verbatim>\<open>canardTxPush\<close> succeed with \<open>n\<close> frames for a transfer whose payload
  buffer holds at least \<open>payload_size\<close> bytes (a \<^verbatim>\<open>NULL\<close> payload of size 0 included).
  The frames enter the queue as one block of \<open>n\<close> items.  Each frame ends with a tail
  byte; in frame \<open>i\<close> (counted from 0) the toggle is set exactly when \<open>i\<close> is even (that
  is, it is \<open>1 XOR (i & 1)\<close>), start-of-transfer exactly when \<open>i = 0\<close>, end-of-transfer
  exactly when the frame is the last one, and the low five bits are the transfer-ID.
  If the payload fits the presentation-layer MTU there is one frame, of the size of
  payload and tail byte rounded up to a CAN frame length: the payload followed by zero
  padding.  Otherwise every frame but the last has the full size and carries \<open>mtu\<close>
  bytes, so there are \<open>(payload_size + 1) div mtu + 1\<close> frames, at least two; the last
  frame has the size of the \<open>r\<close> bytes left for it and the tail byte, rounded up to a
  CAN frame length when \<open>r\<close> is below the MTU.  The frame bodies put one after the other
  are the payload, then \<open>k\<close> zero padding bytes, then the high and the low byte of the
  CRC of payload and padding, where \<open>k\<close> is what the rounding adds to the last frame.
  The body of the last frame is not empty and its last byte, the byte right before the
  final tail byte, is the low byte of the CRC; so the high byte is the byte before it,
  or the last body byte of the frame before when the last frame carries the low byte
  only.  When there is padding, padding and both CRC bytes lie in the last frame.
\<close>

theorem canardTxPush_frame_layout:
  assumes push: "canardTxPush (Some ins) (Some tr) = Some (Inr n, Some ins')"
      and payload: "tr_payload_size tr \<le> length (bytes_at (tr_payload tr))"
  shows "\<exists>pre chain post.
     tx_queue ins = pre @ post \<and> tx_queue ins' = pre @ chain @ post \<and> length chain = n \<and>
     (\<forall>i<n. tqi_payload (chain ! i) \<noteq> [] \<and>
            length (tqi_payload (chain ! i)) = tqi_payload_size (chain ! i) \<and>
            tail_toggle (frame_tail (chain ! i)) = even i \<and>
            tail_start_of_transfer (frame_tail (chain ! i)) = (i = 0) \<and>
            tail_end_of_transfer (frame_tail (chain ! i)) = (Suc i = n) \<and>
            tail_transfer_id (frame_tail (chain ! i)) = tr_transfer_id tr AND CANARD_TRANSFER_ID_MAX) \<and>
     (if tr_payload_size tr \<le> getPresentationLayerMTU ins
      then n = 1 \<and>
           tqi_payload_size (chain ! 0) = roundFramePayloadSizeUp (tr_payload_size tr + 1) \<and>
           (\<exists>k. concat (map frame_body chain) =
                  take (tr_payload_size tr) (bytes_at (tr_payload tr)) @ replicate k PADDING_BYTE)
      else 2 \<le> n \<and>
           n = (tr_payload_size tr + 1) div getPresentationLayerMTU ins + 1 \<and>
           (\<forall>i. Suc i < n \<longrightarrow>
                length (tqi_payload (chain ! i)) = Suc (getPresentationLayerMTU ins)) \<and>
           tqi_payload_size (last chain) =
             (if tr_payload_size tr + 2 - getPresentationLayerMTU ins * (n - 1)
                   < getPresentationLayerMTU ins
              then roundFramePayloadSizeUp
                     (tr_payload_size tr + 2 - getPresentationLayerMTU ins * (n - 1) + 1)
              else getPresentationLayerMTU ins + 1) \<and>
           frame_body (last chain) \<noteq> [] \<and>
           (\<exists>k. concat (map frame_body chain) =
                  take (tr_payload_size tr) (bytes_at (tr_payload tr)) @ replicate k PADDING_BYTE @
                    [crc_hi (crcAdd CRC_INITIAL (tr_payload_size tr + k)
                               (take (tr_payload_size tr) (bytes_at (tr_payload tr)) @
                                replicate k PADDING_BYTE)),
                     crc_lo (crcAdd CRC_INITIAL (tr_payload_size tr + k)
                               (take (tr_payload_size tr) (bytes_at (tr_payload tr)) @
                                replicate k PADDING_BYTE))] \<and>
                last (frame_body (last chain)) =
                  crc_lo (crcAdd CRC_INITIAL (tr_payload_size tr + k)
                            (take (tr_payload_size tr) (bytes_at (tr_payload tr)) @
                             replicate k PADDING_BYTE)) \<and>
                (0 < k \<longrightarrow> k + 2 \<le> length (frame_body (last chain))) \<and>
                length (frame_body (last chain)) =
                  tr_payload_size tr + 2 - getPresentationLayerMTU ins * (n - 1) + k))"
proof -
  let ?mtu = "getPresentationLayerMTU ins"
  let ?psz = "tr_payload_size tr"
  let ?tid = "tr_transfer_id tr"
  let ?bs = "bytes_at (tr_payload tr)"
  from getPresentationLayerMTU_range [of ins]
  have mtu: "7 \<le> ?mtu" "?mtu \<le> 63" by simp_all
  from push obtain cid where
    cid: "makeCANID tr (node_id ins) ?mtu = Inr cid"
    by (cases "makeCANID tr (node_id ins) ?mtu")
      (auto simp add: canardTxPush_def Let_def split: if_splits)
  from push have guard: "tr_payload tr \<noteq> None \<or> 0 = ?psz"
    by (auto simp add: canardTxPush_def split: if_splits)
  let ?pre = "takeWhile (\<lambda>x. tqi_id x \<le> cid) (tx_queue ins)"
  let ?post = "dropWhile (\<lambda>x. tqi_id x \<le> cid) (tx_queue ins)"
  have split: "tx_queue ins = ?pre @ ?post" by simp
  show ?thesis
  proof (cases "?psz \<le> ?mtu")
    case True
    let ?R = "roundFramePayloadSizeUp (?psz + 1)"
    from push guard cid True
    have p: "pushSingleFrameTransfer ins (tr_timestamp_usec tr) cid ?tid ?psz (tr_payload tr) = (Inr n, ins')"
      by (auto simp add: canardTxPush_def Let_def split: prod.splits if_splits)
    from True mtu have "?psz + 1 \<le> 64" by simp
    from roundFramePayloadSizeUp_ge [OF this] have R: "?psz + 1 \<le> ?R" .
    show ?thesis
    proof (cases rule: pushSingleFrameTransfer_cases
             [of ins ?psz "tr_timestamp_usec tr" cid ?tid "tr_payload tr"])
      case (oom m)
      with p show ?thesis by simp
    next
      case (ok a m)
      define x where "x = \<lparr>tqi_addr = a, tqi_deadline_usec = tr_timestamp_usec tr,
                          tqi_payload_size = ?R, tqi_id = cid,
                          tqi_payload = take ?psz ?bs @ replicate (?R - ?psz - 1) PADDING_BYTE @
                                          [makeTailByte True True True ?tid]\<rparr>"
      from ok(2) p have n: "n = 1" and q: "tx_queue ins' = ?pre @ [x] @ ?post"
        by (simp_all add: x_def)
      have xp: "tqi_payload x \<noteq> []" and xl: "length (tqi_payload x) = tqi_payload_size x"
        and xt: "frame_tail x = makeTailByte True True True ?tid"
        and xb: "frame_body x = take ?psz ?bs @ replicate (?R - ?psz - 1) PADDING_BYTE"
        and xs: "tqi_payload_size ([x] ! 0) = ?R"
        using R payload by (simp_all add: x_def frame_tail_def frame_body_def butlast_append)
      from tail_fields [OF xt] xp xl
      have f: "\<forall>i<n. tqi_payload ([x] ! i) \<noteq> [] \<and>
            length (tqi_payload ([x] ! i)) = tqi_payload_size ([x] ! i) \<and>
            tail_toggle (frame_tail ([x] ! i)) = even i \<and>
            tail_start_of_transfer (frame_tail ([x] ! i)) = (i = 0) \<and>
            tail_end_of_transfer (frame_tail ([x] ! i)) = (Suc i = n) \<and>
            tail_transfer_id (frame_tail ([x] ! i)) = ?tid AND CANARD_TRANSFER_ID_MAX"
        unfolding n by simp
      have b: "concat (map frame_body [x]) = take ?psz ?bs @ replicate (?R - ?psz - 1) PADDING_BYTE"
        by (simp add: xb)
      have l: "length [x] = n" unfolding n by simp
      have ex: "\<exists>k. concat (map frame_body [x]) = take ?psz ?bs @ replicate k PADDING_BYTE"
        using b by blast
      show ?thesis
        apply (rule exI [where x = ?pre])
        apply (rule exI [where x = "[x]"])
        apply (rule exI [where x = ?post])
        apply (intro conjI)
            apply (rule split)
           apply (rule q)
          apply (rule l)
         apply (rule f)
        apply (simp only: True if_True)
        apply (intro conjI)
          apply (rule n)
         apply (rule xs)
        apply (rule ex)
        done
    qed
  next
    case False
    then have multi: "?mtu < ?psz" by simp
    with mtu guard obtain bs where some: "tr_payload tr = Some bs" by auto
    then have bs: "?bs = bs" by (simp add: bytes_at_def)
    from payload have len: "?psz \<le> length bs" unfolding bs .
    from push some cid False
    have p: "pushMultiFrameTransfer ins ?mtu (tr_timestamp_usec tr) cid ?tid ?psz (Some bs)
               = Some (Inr n, ins')"
      by (auto simp add: canardTxPush_def Let_def split: option.splits)
    from pushMultiFrameTransfer_layout [OF mtu len multi p]
    obtain chain k where q: "tx_queue ins' = ?pre @ chain @ ?post"
      and l: "length chain = n" and two: "2 \<le> n" and fc: "frames_complete ?mtu ?tid chain"
      and lo: "?mtu * (n - 1) < ?psz + 2" and hi: "?psz + 2 \<le> ?mtu * n"
      and sz: "tqi_payload_size (last chain) = next_frame_size ?mtu ?psz (?mtu * (n - 1))"
      and ne: "frame_body (last chain) \<noteq> []"
      and st: "concat (map frame_body chain) =
                  take ?psz bs @ replicate k PADDING_BYTE @
                    [crc_hi (crcAdd CRC_INITIAL (?psz + k) (take ?psz bs @ replicate k PADDING_BYTE)),
                     crc_lo (crcAdd CRC_INITIAL (?psz + k) (take ?psz bs @ replicate k PADDING_BYTE))]"
      and pad: "0 < k \<longrightarrow> k + 2 \<le> length (frame_body (last chain))"
      and lk: "length (frame_body (last chain)) = ?psz + 2 - ?mtu * (n - 1) + k"
      by blast
    have f: "\<forall>i<n. tqi_payload (chain ! i) \<noteq> [] \<and>
            length (tqi_payload (chain ! i)) = tqi_payload_size (chain ! i) \<and>
            tail_toggle (frame_tail (chain ! i)) = even i \<and>
            tail_start_of_transfer (frame_tail (chain ! i)) = (i = 0) \<and>
            tail_end_of_transfer (frame_tail (chain ! i)) = (Suc i = n) \<and>
            tail_transfer_id (frame_tail (chain ! i)) = ?tid AND CANARD_TRANSFER_ID_MAX"
    proof (intro allI impI)
      fix i assume "i < n"
      with l have i: "i < length chain" by simp
      from frames_complete_nth [OF fc i] tail_fields [of "chain ! i" "i = 0" "Suc i = length chain" "even i" ?tid]
      show "tqi_payload (chain ! i) \<noteq> [] \<and>
            length (tqi_payload (chain ! i)) = tqi_payload_size (chain ! i) \<and>
            tail_toggle (frame_tail (chain ! i)) = even i \<and>
            tail_start_of_transfer (frame_tail (chain ! i)) = (i = 0) \<and>
            tail_end_of_transfer (frame_tail (chain ! i)) = (Suc i = n) \<and>
            tail_transfer_id (frame_tail (chain ! i)) = ?tid AND CANARD_TRANSFER_ID_MAX"
        unfolding l by blast
    qed
    have full: "\<forall>i. Suc i < n \<longrightarrow> length (tqi_payload (chain ! i)) = Suc ?mtu"
    proof (intro allI impI)
      fix i assume s: "Suc i < n"
      with l have i: "i < length chain" by simp
      from frames_complete_nth [OF fc i] s l
      show "length (tqi_payload (chain ! i)) = Suc ?mtu" by simp
    qed
    have cnt: "n = (?psz + 1) div ?mtu + 1"
    proof -
      from lo have a: "?mtu * (n - 1) \<le> ?psz + 1" by simp
      from hi two have b: "?psz + 1 < ?mtu * Suc (n - 1)" by simp
      from div_nat_eqI [OF a b] two show ?thesis by simp
    qed
    have size: "tqi_payload_size (last chain) =
             (if ?psz + 2 - ?mtu * (n - 1) < ?mtu
              then roundFramePayloadSizeUp (?psz + 2 - ?mtu * (n - 1) + 1)
              else ?mtu + 1)"
      unfolding sz next_frame_size_def CRC_SIZE_BYTES_def ..
    from l two have cne: "chain \<noteq> []" by auto
    note lst = last_of_stream [OF cne ne st [unfolded append_assoc [symmetric]]]
    from st pad lk lst have ex: "\<exists>k. concat (map frame_body chain) =
                  take ?psz ?bs @ replicate k PADDING_BYTE @
                    [crc_hi (crcAdd CRC_INITIAL (?psz + k) (take ?psz ?bs @ replicate k PADDING_BYTE)),
                     crc_lo (crcAdd CRC_INITIAL (?psz + k) (take ?psz ?bs @ replicate k PADDING_BYTE))] \<and>
                last (frame_body (last chain)) =
                  crc_lo (crcAdd CRC_INITIAL (?psz + k) (take ?psz ?bs @ replicate k PADDING_BYTE)) \<and>
                (0 < k \<longrightarrow> k + 2 \<le> length (frame_body (last chain))) \<and>
                length (frame_body (last chain)) = ?psz + 2 - ?mtu * (n - 1) + k"
      unfolding bs by blast
    show ?thesis
      apply (rule exI [where x = ?pre])
      apply (rule exI [where x = chain])
      apply (rule exI [where x = ?post])
      apply (intro conjI)
          apply (rule split)
         apply (rule q)
        apply (rule l)
       apply (rule f)
      apply (simp only: False if_False)
      apply (intro conjI)
           apply (rule two)
          apply (rule cnt)
         apply (rule full)
        apply (rule size)
       apply (rule ne)
      apply (rule ex)
      done
  qed
qed

theorem canardTxPush_frame_layout_witness:
  "(\<exists>ins'. canardTxPush (Some example_instance)
               (Some (example_message 4 2 [1, 2, 3, 4, 5, 6, 7, 8, 9, 10, 11, 12, 13]))
             = Some (Inr 3, Some ins')
          \<and> map tqi_payload (tx_queue ins')
               = [[1, 2, 3, 4, 5, 6, 7, 0xA1], [8, 9, 10, 11, 12, 13, 0xF9, 0x01], [0xAD, 0x61]]
          \<and> length (tx_queue ins') = 3
          \<and> (\<forall>i<3. tail_toggle (frame_tail (tx_queue ins' ! i)) = even i \<and>
                    tail_start_of_transfer (frame_tail (tx_queue ins' ! i)) = (i = 0) \<and>
                    tail_end_of_transfer (frame_tail (tx_queue ins' ! i)) = (Suc i = 3))
          \<and> tqi_payload_size (last (tx_queue ins')) = 2
          \<and> frame_body (last (tx_queue ins')) \<noteq> []
          \<and> (\<exists>k. last (frame_body (last (tx_queue ins'))) =
                    crc_lo (crcAdd CRC_INITIAL (13 + k)
                              ([1, 2, 3, 4, 5, 6, 7, 8, 9, 10, 11, 12, 13] @ replicate k PADDING_BYTE)) \<and>
                  length (frame_body (last (tx_queue ins'))) = 1 + k))
   \<and> (\<exists>ins'. canardTxPush (Some example_fd_instance)
               (Some (example_message 4 2 (map of_nat [1..<71])))
             = Some (Inr 2, Some ins')
          \<and> map tqi_payload (tx_queue ins')
               = [map of_nat [1..<64] @ [0xA1], map of_nat [64..<71] @ [0, 0, 0xB0, 0xE5, 0x41]]
          \<and> length (tx_queue ins') = 2
          \<and> (\<forall>i<2. tail_toggle (frame_tail (tx_queue ins' ! i)) = even i \<and>
                    tail_start_of_transfer (frame_tail (tx_queue ins' ! i)) = (i = 0) \<and>
                    tail_end_of_transfer (frame_tail (tx_queue ins' ! i)) = (Suc i = 2))
          \<and> tqi_payload_size (last (tx_queue ins')) = 12
          \<and> frame_body (last (tx_queue ins')) \<noteq> []
          \<and> (\<exists>k. last (frame_body (last (tx_queue ins'))) =
                    crc_lo (crcAdd CRC_INITIAL (70 + k)
                              (map of_nat [1..<71] @ replicate k PADDING_BYTE)) \<and>
                  length (frame_body (last (tx_queue ins'))) = 9 + k))
   \<and> (\<exists>ins'. canardTxPush (Some example_instance) (Some example_empty_message)
             = Some (Inr 1, Some ins')
          \<and> map tqi_payload (tx_queue ins') = [[0xE1]]
          \<and> length (tx_queue ins') = 1
          \<and> tqi_payload_size (tx_queue ins' ! 0) = 1
          \<and> tail_toggle (frame_tail (tx_queue ins' ! 0))
          \<and> tail_start_of_transfer (frame_tail (tx_queue ins' ! 0))
          \<and> tail_end_of_transfer (frame_tail (tx_queue ins' ! 0)))"
proof (intro conjI)
  have q0: "tx_queue example_instance = []"
    by (simp add: example_instance_def canardInit_def)
  have m: "getPresentationLayerMTU example_instance = 7" by code_simp
  have r1: "roundFramePayloadSizeUp (Suc 0) = 1" and r2: "roundFramePayloadSizeUp (Suc (Suc 0)) = 2"
    by code_simp+
  {
    define bs :: "8 word list" where "bs = [1, 2, 3, 4, 5, 6, 7, 8, 9, 10, 11, 12, 13]"
    define T where "T = example_message 4 2 bs"
    have e: "map_option (\<lambda>(r, i). (r, map_option (\<lambda>i. map tqi_payload (tx_queue i)) i))
               (canardTxPush (Some example_instance) (Some T))
             = Some (Inr 3, Some [[1, 2, 3, 4, 5, 6, 7, 0xA1], [8, 9, 10, 11, 12, 13, 0xF9, 0x01],
                                  [0xAD, 0x61]])"
      unfolding T_def bs_def by code_simp
    then obtain ins' where
      p: "canardTxPush (Some example_instance) (Some T) = Some (Inr 3, Some ins')"
      and q: "map tqi_payload (tx_queue ins')
               = [[1, 2, 3, 4, 5, 6, 7, 0xA1], [8, 9, 10, 11, 12, 13, 0xF9, 0x01], [0xAD, 0x61]]"
      by (auto simp add: map_option_case split: option.splits prod.splits)
    have psz: "tr_payload_size T = 13" and pl: "bytes_at (tr_payload T) = bs"
      unfolding T_def bs_def by (simp_all add: example_message_def bytes_at_def)
    have len: "tr_payload_size T \<le> length (bytes_at (tr_payload T))"
      unfolding psz pl by (simp add: bs_def)
    have tk: "take 13 bs = bs" by (simp add: bs_def)
    from canardTxPush_frame_layout [OF p len, unfolded m psz pl q0 tk]
    have "length (tx_queue ins') = 3
          \<and> (\<forall>i<3. tail_toggle (frame_tail (tx_queue ins' ! i)) = even i \<and>
                    tail_start_of_transfer (frame_tail (tx_queue ins' ! i)) = (i = 0) \<and>
                    tail_end_of_transfer (frame_tail (tx_queue ins' ! i)) = (Suc i = 3))
          \<and> tqi_payload_size (last (tx_queue ins')) = 2
          \<and> frame_body (last (tx_queue ins')) \<noteq> []
          \<and> (\<exists>k. last (frame_body (last (tx_queue ins'))) =
                    crc_lo (crcAdd CRC_INITIAL (13 + k) (bs @ replicate k PADDING_BYTE)) \<and>
                  length (frame_body (last (tx_queue ins'))) = 1 + k)"
      by (auto simp add: r2)
    then have "\<exists>ins'. canardTxPush (Some example_instance) (Some T) = Some (Inr 3, Some ins')
          \<and> map tqi_payload (tx_queue ins')
               = [[1, 2, 3, 4, 5, 6, 7, 0xA1], [8, 9, 10, 11, 12, 13, 0xF9, 0x01], [0xAD, 0x61]]
          \<and> length (tx_queue ins') = 3
          \<and> (\<forall>i<3. tail_toggle (frame_tail (tx_queue ins' ! i)) = even i \<and>
                    tail_start_of_transfer (frame_tail (tx_queue ins' ! i)) = (i = 0) \<and>
                    tail_end_of_transfer (frame_tail (tx_queue ins' ! i)) = (Suc i = 3))
          \<and> tqi_payload_size (last (tx_queue ins')) = 2
          \<and> frame_body (last (tx_queue ins')) \<noteq> []
          \<and> (\<exists>k. last (frame_body (last (tx_queue ins'))) =
                    crc_lo (crcAdd CRC_INITIAL (13 + k) (bs @ replicate k PADDING_BYTE)) \<and>
                  length (frame_body (last (tx_queue ins'))) = 1 + k)"
      by (intro exI [where x = ins'] conjI [OF p conjI [OF q]])
    note this [unfolded T_def bs_def]
  }
  then show "\<exists>ins'. canardTxPush (Some example_instance)
               (Some (example_message 4 2 [1, 2, 3, 4, 5, 6, 7, 8, 9, 10, 11, 12, 13]))
             = Some (Inr 3, Some ins')
          \<and> map tqi_payload (tx_queue ins')
               = [[1, 2, 3, 4, 5, 6, 7, 0xA1], [8, 9, 10, 11, 12, 13, 0xF9, 0x01], [0xAD, 0x61]]
          \<and> length (tx_queue ins') = 3
          \<and> (\<forall>i<3. tail_toggle (frame_tail (tx_queue ins' ! i)) = even i \<and>
                    tail_start_of_transfer (frame_tail (tx_queue ins' ! i)) = (i = 0) \<and>
                    tail_end_of_transfer (frame_tail (tx_queue ins' ! i)) = (Suc i = 3))
          \<and> tqi_payload_size (last (tx_queue ins')) = 2
          \<and> frame_body (last (tx_queue ins')) \<noteq> []
          \<and> (\<exists>k. last (frame_body (last (tx_queue ins'))) =
                    crc_lo (crcAdd CRC_INITIAL (13 + k)
                              ([1, 2, 3, 4, 5, 6, 7, 8, 9, 10, 11, 12, 13] @ replicate k PADDING_BYTE)) \<and>
                  length (frame_body (last (tx_queue ins'))) = 1 + k)" .
  have q1: "tx_queue example_fd_instance = []"
    by (simp add: example_fd_instance_def canardInit_def)
  have m1: "getPresentationLayerMTU example_fd_instance = 63" by code_simp
  have r10: "roundFramePayloadSizeUp 10 = 12" by code_simp
  {
    define bs :: "8 word list" where "bs = map of_nat [1..<71]"
    define T where "T = example_message 4 2 bs"
    have e: "map_option (\<lambda>(r, i). (r, map_option (\<lambda>i. map tqi_payload (tx_queue i)) i))
               (canardTxPush (Some example_fd_instance) (Some T))
             = Some (Inr 2, Some [map of_nat [1..<64] @ [0xA1],
                                  map of_nat [64..<71] @ [0, 0, 0xB0, 0xE5, 0x41]])"
      unfolding T_def bs_def by code_simp
    then obtain ins' where
      p: "canardTxPush (Some example_fd_instance) (Some T) = Some (Inr 2, Some ins')"
      and q: "map tqi_payload (tx_queue ins')
               = [map of_nat [1..<64] @ [0xA1], map of_nat [64..<71] @ [0, 0, 0xB0, 0xE5, 0x41]]"
      by (auto simp add: map_option_case split: option.splits prod.splits)
    have lb: "length bs = 70" unfolding bs_def by simp
    have psz: "tr_payload_size T = 70" and pl: "bytes_at (tr_payload T) = bs"
      unfolding T_def by (simp_all add: example_message_def bytes_at_def lb)
    have len: "tr_payload_size T \<le> length (bytes_at (tr_payload T))"
      unfolding psz pl lb by simp
    have tk: "take 70 bs = bs" using lb by simp
    from canardTxPush_frame_layout [OF p len, unfolded m1 psz pl q1 tk]
    have "length (tx_queue ins') = 2
          \<and> (\<forall>i<2. tail_toggle (frame_tail (tx_queue ins' ! i)) = even i \<and>
                    tail_start_of_transfer (frame_tail (tx_queue ins' ! i)) = (i = 0) \<and>
                    tail_end_of_transfer (frame_tail (tx_queue ins' ! i)) = (Suc i = 2))
          \<and> tqi_payload_size (last (tx_queue ins')) = 12
          \<and> frame_body (last (tx_queue ins')) \<noteq> []
          \<and> (\<exists>k. last (frame_body (last (tx_queue ins'))) =
                    crc_lo (crcAdd CRC_INITIAL (70 + k) (bs @ replicate k PADDING_BYTE)) \<and>
                  length (frame_body (last (tx_queue ins'))) = 9 + k)"
      by (auto simp add: r10)
    then have "\<exists>ins'. canardTxPush (Some example_fd_instance) (Some T) = Some (Inr 2, Some ins')
          \<and> map tqi_payload (tx_queue ins')
               = [map of_nat [1..<64] @ [0xA1], map of_nat [64..<71] @ [0, 0, 0xB0, 0xE5, 0x41]]
          \<and> length (tx_queue ins') = 2
          \<and> (\<forall>i<2. tail_toggle (frame_tail (tx_queue ins' ! i)) = even i \<and>
                    tail_start_of_transfer (frame_tail (tx_queue ins' ! i)) = (i = 0) \<and>
                    tail_end_of_transfer (frame_tail (tx_queue ins' ! i)) = (Suc i = 2))
          \<and> tqi_payload_size (last (tx_queue ins')) = 12
          \<and> frame_body (last (tx_queue ins')) \<noteq> []
          \<and> (\<exists>k. last (frame_body (last (tx_queue ins'))) =
                    crc_lo (crcAdd CRC_INITIAL (70 + k) (bs @ replicate k PADDING_BYTE)) \<and>
                  length (frame_body (last (tx_queue ins'))) = 9 + k)"
      by (intro exI [where x = ins'] conjI [OF p conjI [OF q]])
    note this [unfolded T_def bs_def]
  }
  then show "\<exists>ins'. canardTxPush (Some example_fd_instance)
               (Some (example_message 4 2 (map of_nat [1..<71])))
             = Some (Inr 2, Some ins')
          \<and> map tqi_payload (tx_queue ins')
               = [map of_nat [1..<64] @ [0xA1], map of_nat [64..<71] @ [0, 0, 0xB0, 0xE5, 0x41]]
          \<and> length (tx_queue ins') = 2
          \<and> (\<forall>i<2. tail_toggle (frame_tail (tx_queue ins' ! i)) = even i \<and>
                    tail_start_of_transfer (frame_tail (tx_queue ins' ! i)) = (i = 0) \<and>
                    tail_end_of_transfer (frame_tail (tx_queue ins' ! i)) = (Suc i = 2))
          \<and> tqi_payload_size (last (tx_queue ins')) = 12
          \<and> frame_body (last (tx_queue ins')) \<noteq> []
          \<and> (\<exists>k. last (frame_body (last (tx_queue ins'))) =
                    crc_lo (crcAdd CRC_INITIAL (70 + k)
                              (map of_nat [1..<71] @ replicate k PADDING_BYTE)) \<and>
                  length (frame_body (last (tx_queue ins'))) = 9 + k)" .
  {
    define T where "T = example_empty_message"
    have e: "map_option (\<lambda>(r, i). (r, map_option (\<lambda>i. map tqi_payload (tx_queue i)) i))
               (canardTxPush (Some example_instance) (Some T))
             = Some (Inr 1, Some [[0xE1]])"
      unfolding T_def by code_simp
    then obtain ins' where
      p: "canardTxPush (Some example_instance) (Some T) = Some (Inr 1, Some ins')"
      and q: "map tqi_payload (tx_queue ins') = [[0xE1]]"
      by (auto simp add: map_option_case split: option.splits prod.splits)
    have psz: "tr_payload_size T = 0" and pl: "bytes_at (tr_payload T) = []"
      unfolding T_def by (simp_all add: example_empty_message_def example_message_def bytes_at_def)
    have len: "tr_payload_size T \<le> length (bytes_at (tr_payload T))"
      unfolding psz pl by simp
    from canardTxPush_frame_layout [OF p len, unfolded m psz pl q0]
    have "length (tx_queue ins') = 1
          \<and> tqi_payload_size (tx_queue ins' ! 0) = 1
          \<and> tail_toggle (frame_tail (tx_queue ins' ! 0))
          \<and> tail_start_of_transfer (frame_tail (tx_queue ins' ! 0))
          \<and> tail_end_of_transfer (frame_tail (tx_queue ins' ! 0))"
      by (auto simp add: r1)
    then have "\<exists>ins'. canardTxPush (Some example_instance) (Some T) = Some (Inr 1, Some ins')
          \<and> map tqi_payload (tx_queue ins') = [[0xE1]]
          \<and> length (tx_queue ins') = 1
          \<and> tqi_payload_size (tx_queue ins' ! 0) = 1
          \<and> tail_toggle (frame_tail (tx_queue ins' ! 0))
          \<and> tail_start_of_transfer (frame_tail (tx_queue ins' ! 0))
          \<and> tail_end_of_transfer (frame_tail (tx_queue ins' ! 0))"
      by (intro exI [where x = ins'] conjI [OF p conjI [OF q]])
    note this [unfolded T_def]
  }
  then show "\<exists>ins'. canardTxPush (Some example_instance) (Some example_empty_message)
             = Some (Inr 1, Some ins')
          \<and> map tqi_payload (tx_queue ins') = [[0xE1]]
          \<and> length (tx_queue ins') = 1
          \<and> tqi_payload_size (tx_queue ins' ! 0) = 1
          \<and> tail_toggle (frame_tail (tx_queue ins' ! 0))
          \<and> tail_start_of_transfer (frame_tail (tx_queue ins' ! 0))
          \<and> tail_end_of_transfer (frame_tail (tx_queue ins' ! 0))" .
qed
section \<open>Reception: ignored frames and anonymous transfers\<close>

lemma flag_constants:
  "FLAG_SERVICE_NOT_MESSAGE = 2 ^ 25" "FLAG_ANONYMOUS_MESSAGE = 2 ^ 24"
  "FLAG_REQUEST_NOT_RESPONSE = 2 ^ 24" "FLAG_RESERVED_23 = 2 ^ 23" "FLAG_RESERVED_07 = 2 ^ 7"
  by (simp_all add: FLAG_SERVICE_NOT_MESSAGE_def FLAG_ANONYMOUS_MESSAGE_def
      FLAG_REQUEST_NOT_RESPONSE_def FLAG_RESERVED_23_def FLAG_RESERVED_07_def)

lemma flag_tests:
  "(0 = (can_id AND FLAG_SERVICE_NOT_MESSAGE)) = (\<not> bit can_id 25)"
  "((can_id AND FLAG_ANONYMOUS_MESSAGE) \<noteq> 0) = bit can_id 24"
  "((can_id AND FLAG_REQUEST_NOT_RESPONSE) \<noteq> 0) = bit can_id 24"
  "(0 = (can_id AND FLAG_RESERVED_23)) = (\<not> bit can_id 23)"
  "(0 = (can_id AND FLAG_RESERVED_07)) = (\<not> bit can_id 7)"
  unfolding flag_constants
  using and_exp_eq_0_iff_not_bit [of can_id 25] and_exp_eq_0_iff_not_bit [of can_id 24]
    and_exp_eq_0_iff_not_bit [of can_id 23] and_exp_eq_0_iff_not_bit [of can_id 7]
  by (auto simp del: power_numeral)

lemma mask_constants:
  "(ucast CANARD_NODE_ID_MAX :: 32 word) = mask 7"
  "(ucast CANARD_SUBJECT_ID_MAX :: 32 word) = mask 13"
  "(ucast CANARD_SERVICE_ID_MAX :: 32 word) = mask 9"
  by (simp_all add: CANARD_NODE_ID_MAX_def CANARD_SUBJECT_ID_MAX_def CANARD_SERVICE_ID_MAX_def
      mask_eq_exp_minus_1)

lemma find_subscription_None:
  "find_subscription subs port i = None \<longleftrightarrow> port \<notin> sub_port_id ` set subs"
  by (induction subs arbitrary: i) auto

lemma find_subscription_Some:
  "find_subscription subs port i = Some j \<Longrightarrow> port \<in> sub_port_id ` set subs"
  using find_subscription_None [of subs port i] by auto

lemma source_le_max: "(ucast ((can_id :: 32 word) AND mask 7) :: 8 word) \<le> CANARD_NODE_ID_MAX"
proof -
  have "(ucast (can_id AND mask 7) :: 8 word) = ucast (can_id AND mask 7) AND mask 7"
    by (rule bit_word_eqI) (auto simp add: bit_simps)
  also have "\<dots> \<le> mask 7" by (rule word_and_le1)
  finally show ?thesis by (simp add: CANARD_NODE_ID_MAX_def mask_eq_exp_minus_1)
qed

lemma source_not_unset: "(ucast ((can_id :: 32 word) AND mask 7) :: 8 word) \<noteq> CANARD_NODE_ID_UNSET"
proof
  assume "(ucast (can_id AND mask 7) :: 8 word) = CANARD_NODE_ID_UNSET"
  with source_le_max [of can_id] show False
    by (simp add: CANARD_NODE_ID_UNSET_def CANARD_NODE_ID_MAX_def)
qed

lemma tryParseFrame_empty: "fr_payload_size frame = 0 \<Longrightarrow> tryParseFrame frame z = (False, z)"
  by (simp add: tryParseFrame_def)

lemma tryParseFrame_model:
  assumes "0 < fr_payload_size frame"
  shows "tryParseFrame frame FrameModel_zero =
    (\<not> spec_frame_unparseable frame,
     \<lparr>fm_timestamp_usec = fr_timestamp_usec frame,
      fm_priority = unat (take_bit 3 (drop_bit 26 (fr_extended_can_id frame))),
      fm_transfer_kind = spec_frame_kind (fr_extended_can_id frame),
      fm_port_id = spec_frame_port (fr_extended_can_id frame),
      fm_source_node_id =
        (if spec_frame_anonymous (fr_extended_can_id frame) then CANARD_NODE_ID_UNSET
         else ucast (take_bit 7 (fr_extended_can_id frame))),
      fm_destination_node_id = spec_frame_destination (fr_extended_can_id frame),
      fm_transfer_id = tail_transfer_id (spec_frame_tail frame),
      fm_start_of_transfer = tail_start_of_transfer (spec_frame_tail frame),
      fm_end_of_transfer = tail_end_of_transfer (spec_frame_tail frame),
      fm_toggle = tail_toggle (spec_frame_tail frame),
      fm_payload_size = fr_payload_size frame - 1,
      fm_payload = fr_payload frame\<rparr>)"
proof -
  have p: "(of_nat CANARD_PRIORITY_MAX :: 32 word) = mask 3"
    by (simp add: CANARD_PRIORITY_MAX_def mask_eq_exp_minus_1)
  have u: "ucast (take_bit 7 (fr_extended_can_id frame)) \<noteq> CANARD_NODE_ID_UNSET"
    using source_not_unset [of "fr_extended_can_id frame"] by (simp add: take_bit_eq_mask)
  show ?thesis using assms u
    unfolding tryParseFrame_def Let_def flag_tests mask_constants p
      OFFSET_PRIORITY_def OFFSET_SUBJECT_ID_def OFFSET_SERVICE_ID_def OFFSET_DST_NODE_ID_def
    by (auto simp add: FrameModel_zero_def spec_frame_unparseable_def spec_frame_kind_def
        spec_frame_port_def spec_frame_destination_def spec_frame_anonymous_def spec_frame_tail_def
        tail_start_of_transfer_def tail_end_of_transfer_def tail_toggle_def tail_transfer_id_def
        take_bit_eq_mask)
qed

text \<open>
  Claim C8.  Let the arguments of \<^verbatim>\<open>canardRxAccept\<close> be non-\<^verbatim>\<open>NULL\<close>, the CAN-ID fit
  29 bits and the payload pointer be non-\<^verbatim>\<open>NULL\<close> unless the size is zero.  If the
  frame is unparseable (no payload; reserved bit 23 set; reserved bit 7 set on a
  message frame; start-of-transfer with the toggle clear; anonymous without both
  start-of-transfer and end-of-transfer), or its destination node-ID is neither
  \<open>UNSET\<close> nor the node-ID of the instance, or the instance has no subscription for the
  frame's transfer kind and port-ID, then the call returns 0 and leaves the instance
  and the output transfer as they were.
\<close>

theorem canardRxAccept_ignored:
  assumes ok: "rx_frame_argument_ok frame" and ign: "spec_rx_ignored ins frame"
  shows "canardRxAccept (Some ins) (Some frame) iface_index (Some out_transfer)
           = (Inr 0, Some ins, Some out_transfer)"
proof (cases "fr_payload_size frame = 0")
  case True
  with ok show ?thesis
    by (simp add: canardRxAccept_def rx_frame_argument_ok_def tryParseFrame_empty)
next
  case False
  then have pos: "0 < fr_payload_size frame" by simp
  note model = tryParseFrame_model [OF pos]
  from ok False have pre: "fr_extended_can_id frame \<le> CAN_EXT_ID_MASK \<and>
      (fr_payload frame \<noteq> None \<or> 0 = fr_payload_size frame)"
    by (auto simp add: rx_frame_argument_ok_def)
  show ?thesis
  proof (cases "spec_frame_unparseable frame")
    case True
    with pre model show ?thesis by (simp add: canardRxAccept_def)
  next
    case parse: False
    show ?thesis
    proof (cases "spec_frame_misaddressed ins frame")
      case True
      then have "\<not> (CANARD_NODE_ID_UNSET = spec_frame_destination (fr_extended_can_id frame) \<or>
                   node_id ins = spec_frame_destination (fr_extended_can_id frame))"
        by (auto simp add: spec_frame_misaddressed_def)
      with pre model parse show ?thesis by (simp add: canardRxAccept_def)
    next
      case addr: False
      with ign parse have "\<not> spec_frame_subscribed ins frame"
        by (simp add: spec_rx_ignored_def)
      then have "find_subscription
                   (rx_subscriptions ins (spec_frame_kind (fr_extended_can_id frame)))
                   (spec_frame_port (fr_extended_can_id frame)) 0 = None"
        by (simp add: find_subscription_None spec_frame_subscribed_def)
      with pre model parse addr show ?thesis
        by (simp add: canardRxAccept_def acceptFrame_def Let_def)
    qed
  qed
qed

theorem canardRxAccept_ignored_witness:
  "rx_frame_argument_ok
     \<lparr>fr_timestamp_usec = 5, fr_extended_can_id = 0x1000642A, fr_payload_size = 2,
      fr_payload = Some [1, 0xE1]\<rparr>
   \<and> spec_rx_ignored (example_receiver 64)
     \<lparr>fr_timestamp_usec = 5, fr_extended_can_id = 0x1000642A, fr_payload_size = 2,
      fr_payload = Some [1, 0xE1]\<rparr>
   \<and> canardRxAccept (Some (example_receiver 64))
        (Some \<lparr>fr_timestamp_usec = 5, fr_extended_can_id = 0x1000642A, fr_payload_size = 2,
               fr_payload = Some [1, 0xE1]\<rparr>) 0 (Some blank_transfer)
      = (Inr 0, Some (example_receiver 64), Some blank_transfer)"
proof -
  let ?F = "\<lparr>fr_timestamp_usec = 5, fr_extended_can_id = 0x1000642A, fr_payload_size = 2,
             fr_payload = Some [1, 0xE1]\<rparr>"
  have a: "rx_frame_argument_ok ?F"
    by code_simp
  have i: "spec_rx_ignored (example_receiver 64) ?F"
    by code_simp
  from canardRxAccept_ignored [OF a i, of 0 blank_transfer] a i show ?thesis
    by simp
qed

text \<open>
  Claim C9.  For a parseable anonymous message frame for which the instance has a
  subscription, \<^verbatim>\<open>canardRxAccept\<close> returns 1 on that call.  The delivered transfer has
  the remote node-ID \<open>UNSET\<close>, its payload pointer is the frame's payload pointer, and its
  payload size is the frame's size less the tail byte, whatever the payload limit of
  the subscription is.  The instance is unchanged: no allocation is made and no
  session slot is written.
\<close>

theorem canardRxAccept_anonymous:
  assumes ok: "rx_frame_argument_ok frame"
    and parse: "\<not> spec_frame_unparseable frame"
    and anon: "spec_frame_anonymous (fr_extended_can_id frame)"
    and sub: "spec_frame_subscribed ins frame"
  shows "canardRxAccept (Some ins) (Some frame) iface_index (Some out_transfer)
           = (Inr 1, Some ins,
              Some \<lparr>tr_timestamp_usec = fr_timestamp_usec frame,
                    tr_priority = unat (take_bit 3 (drop_bit 26 (fr_extended_can_id frame))),
                    tr_transfer_kind = CanardTransferKindMessage,
                    tr_port_id = ucast (take_bit 13 (drop_bit 8 (fr_extended_can_id frame))),
                    tr_remote_node_id = CANARD_NODE_ID_UNSET,
                    tr_transfer_id = tail_transfer_id (spec_frame_tail frame),
                    tr_payload_size = fr_payload_size frame - 1,
                    tr_payload = fr_payload frame\<rparr>)"
proof -
  from parse have pos: "0 < fr_payload_size frame"
    by (simp add: spec_frame_unparseable_def)
  note model = tryParseFrame_model [OF pos]
  from ok pos have pre: "fr_extended_can_id frame \<le> CAN_EXT_ID_MASK \<and>
      (fr_payload frame \<noteq> None \<or> 0 = fr_payload_size frame)"
    by (auto simp add: rx_frame_argument_ok_def)
  from anon have msg: "\<not> bit (fr_extended_can_id frame) 25"
    by (simp add: spec_frame_anonymous_def)
  then have k: "spec_frame_kind (fr_extended_can_id frame) = CanardTransferKindMessage"
    and p: "spec_frame_port (fr_extended_can_id frame)
              = ucast (take_bit 13 (drop_bit 8 (fr_extended_can_id frame)))"
    and d: "spec_frame_destination (fr_extended_can_id frame) = CANARD_NODE_ID_UNSET"
    by (simp_all add: spec_frame_kind_def spec_frame_port_def spec_frame_destination_def)
  from sub obtain j where
    f: "find_subscription (rx_subscriptions ins (spec_frame_kind (fr_extended_can_id frame)))
          (spec_frame_port (fr_extended_can_id frame)) 0 = Some j"
    using find_subscription_None
      [of "rx_subscriptions ins (spec_frame_kind (fr_extended_can_id frame))"
          "spec_frame_port (fr_extended_can_id frame)" 0]
    by (auto simp add: spec_frame_subscribed_def)
  have u: "\<not> CANARD_NODE_ID_UNSET \<le> CANARD_NODE_ID_MAX"
    by (simp add: CANARD_NODE_ID_UNSET_def CANARD_NODE_ID_MAX_def)
  from pre model parse anon f u d show ?thesis
    unfolding k p
    by (simp add: canardRxAccept_def acceptFrame_def Let_def initRxTransferFromFrame_def k p)
qed

theorem canardRxAccept_anonymous_witness:
  "rx_frame_argument_ok
     \<lparr>fr_timestamp_usec = 5, fr_extended_can_id = 0x011C0055, fr_payload_size = 4,
      fr_payload = Some [0xAA, 0xBB, 0xCC, 0xE0]\<rparr>
   \<and> sub_payload_size_bytes_max (hd (rx_subscriptions (example_receiver 2) CanardTransferKindMessage)) = 2
   \<and> canardRxAccept (Some (example_receiver 2))
        (Some \<lparr>fr_timestamp_usec = 5, fr_extended_can_id = 0x011C0055, fr_payload_size = 4,
               fr_payload = Some [0xAA, 0xBB, 0xCC, 0xE0]\<rparr>) 0 (Some blank_transfer)
      = (Inr 1, Some (example_receiver 2),
         Some \<lparr>tr_timestamp_usec = 5, tr_priority = 0,
               tr_transfer_kind = CanardTransferKindMessage, tr_port_id = 7168,
               tr_remote_node_id = CANARD_NODE_ID_UNSET, tr_transfer_id = 0,
               tr_payload_size = 3, tr_payload = Some [0xAA, 0xBB, 0xCC, 0xE0]\<rparr>)"
proof -
  let ?F = "\<lparr>fr_timestamp_usec = 5, fr_extended_can_id = 0x011C0055, fr_payload_size = 4,
             fr_payload = Some [0xAA, 0xBB, 0xCC, 0xE0]\<rparr>"
  have a: "rx_frame_argument_ok ?F"
    by code_simp
  have p: "\<not> spec_frame_unparseable ?F"
    by code_simp
  have n: "spec_frame_anonymous (fr_extended_can_id ?F)"
    by code_simp
  have s: "spec_frame_subscribed (example_receiver 2) ?F"
    by code_simp
  have m: "sub_payload_size_bytes_max (hd (rx_subscriptions (example_receiver 2) CanardTransferKindMessage)) = 2"
    by code_simp
  have v: "unat (take_bit 3 (drop_bit 26 (fr_extended_can_id ?F))) = 0"
    "(ucast (take_bit 13 (drop_bit 8 (fr_extended_can_id ?F))) :: 16 word) = 7168"
    "tail_transfer_id (spec_frame_tail ?F) = 0"
    by code_simp+
  from canardRxAccept_anonymous [OF a p n s, of 0 blank_transfer] a m show ?thesis
    unfolding v by simp
qed

section \<open>Transfers from a node are not reassembled\<close>

lemma acceptFrame_from_node:
  assumes "fm_source_node_id frame \<le> CANARD_NODE_ID_MAX"
  shows "fst (acceptFrame ins frame iface_index out_transfer) \<noteq> Inr 1
         \<and> snd (snd (acceptFrame ins frame iface_index out_transfer)) = out_transfer"
  using assms
  by (auto simp add: acceptFrame_def updateRxSession_def Let_def
      split: option.splits prod.splits if_splits)

lemma canardRxAccept_from_node_never_delivers:
  assumes ok: "rx_frame_argument_ok frame"
    and node: "\<not> spec_frame_anonymous (fr_extended_can_id frame)"
  shows "fst (canardRxAccept (Some ins) (Some frame) iface_index (Some out_transfer)) \<noteq> Inr 1
         \<and> snd (snd (canardRxAccept (Some ins) (Some frame) iface_index (Some out_transfer)))
             = Some out_transfer"
proof (cases "fr_payload_size frame = 0")
  case True
  with ok show ?thesis
    by (simp add: canardRxAccept_def rx_frame_argument_ok_def tryParseFrame_empty)
next
  case False
  then have pos: "0 < fr_payload_size frame" by simp
  note model = tryParseFrame_model [OF pos]
  from ok False have pre: "fr_extended_can_id frame \<le> CAN_EXT_ID_MASK \<and>
      (fr_payload frame \<noteq> None \<or> 0 = fr_payload_size frame)"
    by (auto simp add: rx_frame_argument_ok_def)
  show ?thesis
  proof (cases "spec_frame_unparseable frame")
    case True
    with pre model show ?thesis by (simp add: canardRxAccept_def)
  next
    case parse: False
    define model where "model = snd (tryParseFrame frame FrameModel_zero)"
    have t: "tryParseFrame frame FrameModel_zero = (True, model)"
      using tryParseFrame_model [OF pos] parse by (simp add: model_def)
    have "fm_source_node_id model = ucast (take_bit 7 (fr_extended_can_id frame))"
      using tryParseFrame_model [OF pos] node by (simp add: model_def)
    with source_le_max [of "fr_extended_can_id frame"]
    have le: "fm_source_node_id model \<le> CANARD_NODE_ID_MAX"
      by (simp add: take_bit_eq_mask)
    from acceptFrame_from_node [OF le, of ins iface_index out_transfer] pre t show ?thesis
      by (cases "acceptFrame ins model iface_index out_transfer")
         (simp add: canardRxAccept_def)
  qed
qed

text \<open>
  Claim C1.  The round trip of a transfer through \<^verbatim>\<open>canardTxPush\<close> and
  \<^verbatim>\<open>canardRxAccept\<close> does not hold of the source: \<^verbatim>\<open>updateRxSession\<close> returns zero
  and writes no transfer, so no frame with a source node-ID completes a transfer (the
  lemma above).  Here is the single-frame message of node 42 on subject 7168 with the
  payload \<open>10 20 30\<close> (hexadecimal) and transfer-ID 1: the push makes one frame with the
  CAN-ID \<open>0x101C002A\<close> and the payload \<open>10 20 30 E1\<close>; a receiver subscribed to messages
  on subject 7168 with a payload limit of 64 bytes returns 0 for that frame and leaves
  the output transfer as it was.
\<close>

theorem roundtrip_not_delivered:
  "(case canardTxPush (Some example_instance) (Some (example_message 4 7168 [0x10, 0x20, 0x30])) of
      Some (Inr n, Some sender) \<Rightarrow>
        (case canardTxPeek (Some sender) (Some blank_frame) of
           (Inr k, Some frame) \<Rightarrow>
             n = 1 \<and> k = 1 \<and> fr_extended_can_id frame = 0x101C002A \<and>
             fr_payload frame = Some [0x10, 0x20, 0x30, 0xE1] \<and>
             (case canardRxAccept (Some (example_receiver 64)) (Some frame) 0 (Some blank_transfer) of
                (r, receiver, out_transfer) \<Rightarrow> r = Inr 0 \<and> out_transfer = Some blank_transfer)
         | _ \<Rightarrow> False)
    | _ \<Rightarrow> False)"
  by code_simp

theorem roundtrip_not_delivered_witness:
  "\<exists>sender frame receiver.
     canardTxPush (Some example_instance) (Some (example_message 4 7168 [0x10, 0x20, 0x30]))
       = Some (Inr 1, Some sender)
     \<and> canardTxPeek (Some sender) (Some blank_frame) = (Inr 1, Some frame)
     \<and> fr_extended_can_id frame = 0x101C002A
     \<and> fr_payload frame = Some [0x10, 0x20, 0x30, 0xE1]
     \<and> canardRxAccept (Some (example_receiver 64)) (Some frame) 0 (Some blank_transfer)
         = (Inr 0, receiver, Some blank_transfer)"
proof -
  note t = roundtrip_not_delivered
  from t obtain n sender where
    p: "canardTxPush (Some example_instance) (Some (example_message 4 7168 [0x10, 0x20, 0x30]))
          = Some (Inr n, Some sender)"
    by (cases "canardTxPush (Some example_instance) (Some (example_message 4 7168 [0x10, 0x20, 0x30]))")
       (auto split: prod.splits sum.splits option.splits)
  from t have t2: "case canardTxPeek (Some sender) (Some blank_frame) of
           (Inr k, Some frame) \<Rightarrow>
             n = 1 \<and> k = 1 \<and> fr_extended_can_id frame = 0x101C002A \<and>
             fr_payload frame = Some [0x10, 0x20, 0x30, 0xE1] \<and>
             (case canardRxAccept (Some (example_receiver 64)) (Some frame) 0 (Some blank_transfer) of
                (r, receiver, out_transfer) \<Rightarrow> r = Inr 0 \<and> out_transfer = Some blank_transfer)
         | _ \<Rightarrow> False"
    unfolding p by simp
  then obtain k frame where
    pk: "canardTxPeek (Some sender) (Some blank_frame) = (Inr k, Some frame)"
    by (cases "canardTxPeek (Some sender) (Some blank_frame)")
       (auto split: prod.splits sum.splits option.splits)
  from t2 have t3: "n = 1 \<and> k = 1 \<and> fr_extended_can_id frame = 0x101C002A \<and>
             fr_payload frame = Some [0x10, 0x20, 0x30, 0xE1] \<and>
             (case canardRxAccept (Some (example_receiver 64)) (Some frame) 0 (Some blank_transfer) of
                (r, receiver, out_transfer) \<Rightarrow> r = Inr 0 \<and> out_transfer = Some blank_transfer)"
    unfolding pk by simp
  then obtain receiver where
    rx: "canardRxAccept (Some (example_receiver 64)) (Some frame) 0 (Some blank_transfer)
           = (Inr 0, receiver, Some blank_transfer)"
    by (cases "canardRxAccept (Some (example_receiver 64)) (Some frame) 0 (Some blank_transfer)")
       auto
  from p pk t3 rx show ?thesis by auto
qed

section \<open>The CAN-ID fits the extended identifier\<close>

text \<open>
  Every specifier \<^verbatim>\<open>makeCANID\<close> builds lies below bit 26 and the priority adds bits
  26 to 28, so a CAN-ID it returns satisfies the assertion
  \<^verbatim>\<open>can_id <= CAN_EXT_ID_MASK\<close> of \<^verbatim>\<open>findTxQueueSupremum\<close>.
\<close>

lemma bit_below:
  fixes w :: "'a::len word"
  assumes "unat w < 2 ^ k" and "bit w n"
  shows "n < k"
proof -
  from assms(2) have "bit (unat w) n" by (simp add: bit_unsigned_iff)
  moreover from assms(1) have "take_bit k (unat w) = unat w" by (simp only: take_bit_nat_eq_self)
  ultimately have "bit (take_bit k (unat w)) n" by simp
  then show ?thesis by (simp add: bit_take_bit_iff)
qed

lemma below_bitI:
  fixes w :: "32 word"
  assumes "\<And>n. bit w n \<Longrightarrow> n < 29"
  shows "w \<le> 0x1FFFFFFF"
proof -
  have "take_bit 29 w = w"
    by (rule bit_word_eqI) (auto simp add: bit_take_bit_iff dest: assms)
  then have "unat w = unat (take_bit 29 w)" by simp
  also have "\<dots> = take_bit 29 (unat w)" by (simp add: unsigned_take_bit_eq)
  also have "\<dots> < 2 ^ 29" by (rule take_bit_nat_less_exp)
  finally show ?thesis by (simp add: word_le_nat_alt)
qed

lemma node_bits: "(w :: 8 word) \<le> CANARD_NODE_ID_MAX \<Longrightarrow> bit w n \<Longrightarrow> n < 7"
  by (rule bit_below [of w 7]) (simp_all add: CANARD_NODE_ID_MAX_def word_le_nat_alt)

lemma subject_bits: "(w :: 16 word) \<le> CANARD_SUBJECT_ID_MAX \<Longrightarrow> bit w n \<Longrightarrow> n < 13"
  by (rule bit_below [of w 13]) (simp_all add: CANARD_SUBJECT_ID_MAX_def word_le_nat_alt)

lemma service_bits: "(w :: 16 word) \<le> CANARD_SERVICE_ID_MAX \<Longrightarrow> bit w n \<Longrightarrow> n < 9"
  by (rule bit_below [of w 9]) (simp_all add: CANARD_SERVICE_ID_MAX_def word_le_nat_alt)

lemma priority_bits: "p \<le> CANARD_PRIORITY_MAX \<Longrightarrow> bit (of_nat p :: 32 word) n \<Longrightarrow> n < 3"
  by (rule bit_below [of "of_nat p :: 32 word" 3])
    (simp_all add: CANARD_PRIORITY_MAX_def unat_of_nat)

lemma message_specifier_bits:
  assumes "src \<le> CANARD_NODE_ID_MAX" and "subject \<le> CANARD_SUBJECT_ID_MAX"
    and "bit (makeMessageSessionSpecifier subject src) n"
  shows "n < 21"
proof -
  from assms(3) consider "bit src n" | "8 \<le> n" "bit subject (n - 8)"
    by (auto simp add: makeMessageSessionSpecifier_def OFFSET_SUBJECT_ID_def bit_or_iff
        bit_push_bit_iff bit_ucast_iff)
  then show ?thesis
  proof cases
    case 1
    with node_bits [OF assms(1)] have "n < 7" by simp
    then show ?thesis by simp
  next
    case 2
    with subject_bits [OF assms(2)] have "n - 8 < 13" by simp
    then show ?thesis by simp
  qed
qed

lemma service_specifier_bits:
  assumes "src \<le> CANARD_NODE_ID_MAX" and "dst \<le> CANARD_NODE_ID_MAX"
    and "service \<le> CANARD_SERVICE_ID_MAX"
    and "bit (makeServiceSessionSpecifier service rnr src dst) n"
  shows "n < 26"
proof -
  have f: "bit (FLAG_REQUEST_NOT_RESPONSE) k \<Longrightarrow> k = 24"
    "bit (FLAG_SERVICE_NOT_MESSAGE) k \<Longrightarrow> k = 25" for k
    unfolding flag_constants by (auto simp only: bit_exp_iff)
  from assms(4) consider "bit src n" | "7 \<le> n" "bit dst (n - 7)"
    | "14 \<le> n" "bit service (n - 14)" | "n = 24" | "n = 25"
    by (auto simp add: makeServiceSessionSpecifier_def OFFSET_DST_NODE_ID_def
        OFFSET_SERVICE_ID_def bit_or_iff bit_push_bit_iff bit_ucast_iff
        dest: f split: if_splits)
  then show ?thesis
  proof cases
    case 1
    with node_bits [OF assms(1)] have "n < 7" by simp
    then show ?thesis by simp
  next
    case 2
    with node_bits [OF assms(2)] have "n - 7 < 7" by simp
    then show ?thesis by simp
  next
    case 3
    with service_bits [OF assms(3)] have "n - 14 < 9" by simp
    then show ?thesis by simp
  qed simp_all
qed

lemma makeCANID_fits:
  assumes "makeCANID tr local_node_id mtu = Inr can_id"
  shows "can_id \<le> CAN_EXT_ID_MASK"
proof -
  define c :: CanardNodeID
    where "c = ucast (crcAdd CRC_INITIAL (tr_payload_size tr) (bytes_at (tr_payload tr)))
                 AND CANARD_NODE_ID_MAX"
  have c: "c \<le> CANARD_NODE_ID_MAX" unfolding c_def by (rule word_and_le1)
  have anon: "bit (FLAG_ANONYMOUS_MESSAGE) k \<Longrightarrow> k = 24" for k
    unfolding flag_constants by (auto simp only: bit_exp_iff)
  from assms obtain spec where id: "can_id = spec OR push_bit OFFSET_PRIORITY (of_nat (tr_priority tr))"
    and prio: "tr_priority tr \<le> CANARD_PRIORITY_MAX"
    and spec: "(tr_port_id tr \<le> CANARD_SUBJECT_ID_MAX \<and>
                 (local_node_id \<le> CANARD_NODE_ID_MAX \<and>
                    spec = makeMessageSessionSpecifier (tr_port_id tr) local_node_id
                  \<or> spec = makeMessageSessionSpecifier (tr_port_id tr) c OR FLAG_ANONYMOUS_MESSAGE))
               \<or> (tr_port_id tr \<le> CANARD_SERVICE_ID_MAX \<and> local_node_id \<le> CANARD_NODE_ID_MAX \<and>
                  tr_remote_node_id tr \<le> CANARD_NODE_ID_MAX \<and>
                  spec = makeServiceSessionSpecifier (tr_port_id tr)
                           (tr_transfer_kind tr = CanardTransferKindRequest)
                           local_node_id (tr_remote_node_id tr))"
    unfolding makeCANID_def Let_def c_def
    by (auto split: if_splits sum.splits)
  have s: "k < 26" if "bit spec k" for k
    using spec that message_specifier_bits [of local_node_id "tr_port_id tr" k]
      message_specifier_bits [OF c, of "tr_port_id tr" k]
      service_specifier_bits [of local_node_id "tr_remote_node_id tr" "tr_port_id tr" _ k]
      anon [of k]
    by (auto simp add: bit_or_iff)
  have "can_id \<le> 0x1FFFFFFF"
  proof (rule below_bitI)
    fix n assume "bit can_id n"
    then consider "bit spec n" | "26 \<le> n" "bit (of_nat (tr_priority tr) :: 32 word) (n - 26)"
      by (auto simp add: id OFFSET_PRIORITY_def bit_or_iff bit_push_bit_iff)
    then show "n < 29"
    proof cases
      case 1
      with s have "n < 26" by simp
      then show ?thesis by simp
    next
      case 2
      with priority_bits [OF prio] have "n - 26 < 3" by simp
      then show ?thesis by simp
    qed
  qed
  then show ?thesis by (simp add: CAN_EXT_ID_MASK_def)
qed

end
